theory Spec2Isabelle
  imports Main "HOL-Library.Word" "HOL-Library.Char_ord" "HOL-Library.List_Lexorder"
begin

section \<open>Harmonia Shortcuts: keybinding governance\<close>

text \<open>
  A shallow embedding of the TypeScript services of the extension: identity derivation
  and key normalisation (\<^verbatim>\<open>types/keybinding.ts\<close>), the governance state store
  (\<^verbatim>\<open>GovernanceService\<close>), the conflict detector (\<^verbatim>\<open>ConflictService\<close>), the writer of
  \<^verbatim>\<open>keybindings.json\<close> (\<^verbatim>\<open>KeybindingsFileService\<close>) and the snapshot manager
  (\<^verbatim>\<open>SnapshotService\<close>).

  A JavaScript string is a \<^typ>\<open>string\<close>: one \<^typ>\<open>char\<close> stands for one UTF-16 code unit
  below 256. \<^verbatim>\<open>undefined\<close> in an optional field is \<^term>\<open>None\<close>. \<^verbatim>\<open>Date.now()\<close> and the
  random part of a snapshot id are inputs of the operation that reads them.
\<close>

subsection \<open>Data model (types/keybinding.ts, types/snapshot.ts)\<close>

datatype KeybindingSource = User | Extension | Default

datatype GovernanceStatus = Pending | Approved | Deactivated | Remapped | Skipped

text \<open>The fields \<^verbatim>\<open>mac\<close>, \<^verbatim>\<open>win\<close>, \<^verbatim>\<open>linux\<close> and \<^verbatim>\<open>args\<close> of a Keybinding are read by no
  operation modelled here and are left out.\<close>

record Keybinding =
  id_k :: string
  key_k :: string
  command_k :: string
  when_k :: "string option"
  source_k :: KeybindingSource
  extensionId_k :: "string option"
  extensionName_k :: "string option"

record KeybindingConflict =
  key_c :: string
  bindings_c :: "Keybinding list"
  involvesUserBinding :: bool

record 'a UserKeybindingEntry =
  key_e :: string
  command_e :: string
  when_e :: "string option"
  args_e :: "'a option"

record GovernanceDecision =
  keybindingId :: string
  status :: GovernanceStatus
  originalKey :: "string option"
  remappedKey :: "string option"
  decidedAt :: int
  extensionId :: "string option"

record GovernanceState =
  version :: int
  decisions :: "string \<rightharpoonup> GovernanceDecision"
  extensionVersions :: "string \<rightharpoonup> string"
  initialAuditComplete :: bool
  lastUpdated :: int

record Snapshot =
  id_s :: string
  name_s :: string
  createdAt_s :: int
  keybindingsContent_s :: string
  governanceState_s :: GovernanceState

definition createEmptyGovernanceState :: "int \<Rightarrow> GovernanceState" where
  "createEmptyGovernanceState now =
     \<lparr>version = 1, decisions = Map.empty, extensionVersions = Map.empty,
      initialAuditComplete = False, lastUpdated = now\<rparr>"

text \<open>JavaScript truthiness of an optional string: \<^verbatim>\<open>undefined\<close> and \<^verbatim>\<open>""\<close> are falsy.\<close>

definition truthy :: "string option \<Rightarrow> bool" where
  "truthy v = (case v of None \<Rightarrow> False | Some s \<Rightarrow> s \<noteq> [])"

subsection \<open>Identity derivation (generateKeybindingId)\<close>

text \<open>
  \<^verbatim>\<open>hash = ((hash << 5) - hash) + char; hash = hash & hash\<close>: the shift and the final
  \<^verbatim>\<open>&\<close> are 32-bit integer operations and the subtraction and addition between them are
  exact in a double, so one round is arithmetic modulo \<open>2^32\<close>, read as a signed value.
\<close>

definition hash_step :: "32 word \<Rightarrow> char \<Rightarrow> 32 word" where
  "hash_step hash c = (push_bit 5 hash - hash) + of_nat (of_char c)"

definition hexDigit :: "nat \<Rightarrow> char" where
  "hexDigit d = ''0123456789abcdef'' ! d"

function toString16 :: "nat \<Rightarrow> string" where
  "toString16 n = (if n < 16 then [hexDigit n] else toString16 (n div 16) @ [hexDigit (n mod 16)])"
  by pat_completeness auto
termination
  by (relation "measure id") auto

declare toString16.simps [simp del]

definition padStart :: "nat \<Rightarrow> char \<Rightarrow> string \<Rightarrow> string" where
  "padStart n c s = replicate (n - length s) c @ s"

definition substring :: "nat \<Rightarrow> nat \<Rightarrow> string \<Rightarrow> string" where
  "substring a b s = take (b - a) (drop a s)"

definition id_input :: "string \<Rightarrow> string \<Rightarrow> string option \<Rightarrow> string" where
  "id_input key command when =
     key @ ''|'' @ command @ ''|'' @ (case when of None \<Rightarrow> [] | Some w \<Rightarrow> w)"

definition generateKeybindingId :: "string \<Rightarrow> string \<Rightarrow> string option \<Rightarrow> string" where
  "generateKeybindingId key command when =
     (let hash = foldl hash_step 0 (id_input key command when)
      in substring 0 16 (padStart 8 (CHR ''0'') (toString16 (nat \<bar>sint hash\<bar>))))"

subsection \<open>Governance state store (GovernanceService)\<close>

text \<open>
  The service holds the live state in \<^verbatim>\<open>this.state\<close>; \<^verbatim>\<open>saveState\<close> stamps it, writes it to
  the key-value store under \<^verbatim>\<open>GOVERNANCE_STATE_KEY\<close> and fires \<^verbatim>\<open>onStateChanged\<close>. The
  stored copy and the events fired so far are part of the modelled service. Every method
  takes the service and returns it, with the value the method returns when it has one.
\<close>

record GovernanceService =
  state :: GovernanceState
  persisted :: "GovernanceState option"
  fired :: "GovernanceState list"


definition getState :: "GovernanceService \<Rightarrow> GovernanceState \<times> GovernanceService" where
  "getState svc = (state svc, svc)"


definition isFirstRun :: "GovernanceService \<Rightarrow> bool \<times> GovernanceService" where
  "isFirstRun svc = (\<not> initialAuditComplete (state svc), svc)"


definition getDecision :: "string \<Rightarrow> GovernanceService \<Rightarrow> GovernanceDecision option \<times> GovernanceService" where
  "getDecision keybindingId' svc = (decisions (state svc) keybindingId', svc)"

text \<open>\<^verbatim>\<open>this.state.decisions[keybindingId]?.status ?? 'pending'\<close>\<close>

definition getStatus :: "string \<Rightarrow> GovernanceService \<Rightarrow> GovernanceStatus \<times> GovernanceService" where
  "getStatus keybindingId' svc =
     ((case decisions (state svc) keybindingId' of
         None \<Rightarrow> Pending
       | Some decision \<Rightarrow> status decision), svc)"









definition initialService :: "int \<Rightarrow> GovernanceService" where
  "initialService created =
     \<lparr>state = createEmptyGovernanceState created, persisted = None, fired = []\<rparr>"

subsection \<open>String operations of the host language\<close>

text \<open>
  \<^verbatim>\<open>String.prototype.toLowerCase\<close> on code units below 256: the letters A to Z and the
  upper-case letters of Latin-1 move up by 32, everything else stays.
\<close>

definition toLowerCase_char :: "char \<Rightarrow> char" where
  "toLowerCase_char c =
     (let n = (of_char c :: nat)
      in if (65 \<le> n \<and> n \<le> 90) \<or> (192 \<le> n \<and> n \<le> 214) \<or> (216 \<le> n \<and> n \<le> 222)
         then char_of (n + 32) else c)"

definition toLowerCase :: "string \<Rightarrow> string" where
  "toLowerCase s = map toLowerCase_char s"

text \<open>White space and line terminators below 256, as \<^verbatim>\<open>trim\<close> and the regular
  expression class \<^verbatim>\<open>\s\<close> read them: TAB, LF, VT, FF, CR, SPACE, NBSP.\<close>

definition isWhiteSpace :: "char \<Rightarrow> bool" where
  "isWhiteSpace c = ((of_char c :: nat) \<in> {9, 10, 11, 12, 13, 32, 160})"

definition trim :: "string \<Rightarrow> string" where
  "trim s = rev (dropWhile isWhiteSpace (rev (dropWhile isWhiteSpace s)))"

text \<open>\<^verbatim>\<open>s.split(sep)\<close> for a separator of one character.\<close>

fun split_char :: "char \<Rightarrow> string \<Rightarrow> string list" where
  "split_char sep [] = [[]]"
| "split_char sep (c # cs) =
     (if c = sep then [] # split_char sep cs
      else (let r = split_char sep cs in (c # hd r) # tl r))"

text \<open>\<^verbatim>\<open>s.split(sep)\<close> for a separator of the two characters \<open>a\<close>, \<open>b\<close>.\<close>

fun split2 :: "char \<Rightarrow> char \<Rightarrow> string \<Rightarrow> string list" where
  "split2 a b [] = [[]]"
| "split2 a b [c] = [[c]]"
| "split2 a b (c # d # cs) =
     (if c = a \<and> d = b then [] # split2 a b cs
      else (let r = split2 a b (d # cs) in (c # hd r) # tl r))"

fun join :: "string \<Rightarrow> string list \<Rightarrow> string" where
  "join sep [] = []"
| "join sep [x] = x"
| "join sep (x # y # ys) = x @ sep @ join sep (y # ys)"

fun startsWith :: "string \<Rightarrow> string \<Rightarrow> bool" where
  "startsWith s [] = True"
| "startsWith [] (p # ps) = False"
| "startsWith (c # cs) (p # ps) = (c = p \<and> startsWith cs ps)"

fun includes_str :: "string \<Rightarrow> string \<Rightarrow> bool" where
  "includes_str [] p = (p = [])"
| "includes_str (c # cs) p = (startsWith (c # cs) p \<or> includes_str cs p)"

text \<open>
  \<^verbatim>\<open>when.split(/\s*&&\s*/)\<close>. \<open>match_and s\<close> matches the expression at the start of \<open>s\<close>
  and gives what follows the match; both runs of white space are greedy and cannot give a
  character back, since \<^verbatim>\<open>&\<close> is no white space. \<open>split_and\<close> tries the match at each position
  from the left and cuts there, as \<^verbatim>\<open>split\<close> does.
\<close>

definition match_and :: "string \<Rightarrow> string option" where
  "match_and s =
     (case dropWhile isWhiteSpace s of
        c # d # r \<Rightarrow> if c = CHR ''&'' \<and> d = CHR ''&'' then Some (dropWhile isWhiteSpace r) else None
      | _ \<Rightarrow> None)"

lemma match_and_shorter: "match_and s = Some r \<Longrightarrow> length r < length s"
proof -
  assume m: "match_and s = Some r"
  then obtain c d t where d: "dropWhile isWhiteSpace s = c # d # t" and r: "r = dropWhile isWhiteSpace t"
    by (auto simp: match_and_def split: list.splits if_splits)
  have "length r \<le> length t" using r by (simp add: length_dropWhile_le)
  moreover have "length (c # d # t) \<le> length s"
    using length_dropWhile_le [of isWhiteSpace s] d by simp
  ultimately show ?thesis by simp
qed

function split_and :: "string \<Rightarrow> string list" where
  "split_and s =
     (if s = [] then [[]]
      else (case match_and s of
              Some rest \<Rightarrow> [] # split_and rest
            | None \<Rightarrow> (let r = split_and (tl s) in (hd s # hd r) # tl r)))"
  by pat_completeness auto
termination
  by (relation "measure length") (auto simp: match_and_shorter)

declare split_and.simps [simp del]

subsection \<open>Key normalisation (normalizeKey)\<close>

text \<open>\<^verbatim>\<open>Array.prototype.sort()\<close> without a comparator orders strings by their code units,
  a proper prefix first: the lexicographic order of \<^typ>\<open>string\<close>.\<close>

definition normalizeKey :: "string \<Rightarrow> string" where
  "normalizeKey key = join ''+'' (sort (map trim (split_char (CHR ''+'') (toLowerCase key))))"

definition isNegationCommand :: "string \<Rightarrow> bool" where
  "isNegationCommand command = startsWith command ''-''"

definition getBaseCommand :: "string \<Rightarrow> string" where
  "getBaseCommand command = (if startsWith command ''-'' then drop 1 command else command)"

subsection \<open>Conflict detector (ConflictService)\<close>

text \<open>A JavaScript \<^verbatim>\<open>Map\<close> keeps its keys in the order of their first insertion:
  an association list, \<^verbatim>\<open>set\<close> replacing the value in place or appending a new pair.\<close>

fun Map_get :: "('k \<times> 'v) list \<Rightarrow> 'k \<Rightarrow> 'v option" where
  "Map_get [] k = None"
| "Map_get ((k', v) # m) k = (if k' = k then Some v else Map_get m k)"

fun Map_set :: "'k \<Rightarrow> 'v \<Rightarrow> ('k \<times> 'v) list \<Rightarrow> ('k \<times> 'v) list" where
  "Map_set k v [] = [(k, v)]"
| "Map_set k v ((k', v') # m) = (if k' = k then (k, v) # m else (k', v') # Map_set k v m)"

text \<open>One part of a \<^verbatim>\<open>when\<close> clause, entered into the map of conditions. The
  destructuring \<^verbatim>\<open>[key, value] = trimmed.split('==').map(...)\<close> always finds two
  elements, since \<^verbatim>\<open>trimmed\<close> includes \<^verbatim>\<open>==\<close>.\<close>

definition parseWhenPart :: "(string \<times> bool) list \<Rightarrow> string \<Rightarrow> (string \<times> bool) list" where
  "parseWhenPart conditions part =
     (let trimmed = trim part
      in if startsWith trimmed ''!'' then Map_set (drop 1 trimmed) False conditions
         else if includes_str trimmed ''=='' then
           (case map trim (split2 (CHR ''='') (CHR ''='') trimmed) of
              key # value # _ \<Rightarrow> Map_set key (value = ''true'') conditions
            | _ \<Rightarrow> conditions)
         else Map_set trimmed True conditions)"

definition parseWhenConditions :: "string \<Rightarrow> (string \<times> bool) list" where
  "parseWhenConditions when = foldl parseWhenPart [] (split_and when)"

definition contextsOverlap :: "string option \<Rightarrow> string option \<Rightarrow> bool" where
  "contextsOverlap when1 when2 =
     (if \<not> truthy when1 \<and> \<not> truthy when2 then True
      else if \<not> truthy when1 \<or> \<not> truthy when2 then True
      else (let conditions1 = parseWhenConditions (the when1);
                conditions2 = parseWhenConditions (the when2)
            in list_all (\<lambda>(key, value).
                  (case Map_get conditions2 key of
                     None \<Rightarrow> True
                   | Some otherValue \<Rightarrow> otherValue = value)) conditions1))"

text \<open>
  \<^verbatim>\<open>groupByContext\<close>: the outer loop over \<open>i\<close> and the inner loop over \<open>j\<close>, with the set
  \<^verbatim>\<open>processed\<close> of indices already placed in a group.
\<close>

function groupByContext_inner ::
  "Keybinding list \<Rightarrow> nat \<Rightarrow> nat \<Rightarrow> Keybinding list \<Rightarrow> nat set \<Rightarrow> Keybinding list \<times> nat set"
where
  "groupByContext_inner bindings i j grp processed =
     (if j < length bindings then
        (if j \<in> processed then groupByContext_inner bindings i (j + 1) grp processed
         else if contextsOverlap (when_k (bindings ! i)) (when_k (bindings ! j))
         then groupByContext_inner bindings i (j + 1) (grp @ [bindings ! j]) (insert j processed)
         else groupByContext_inner bindings i (j + 1) grp processed)
      else (grp, processed))"
  by pat_completeness auto
termination
  by (relation "measure (\<lambda>(bindings, i, j, grp, processed). length bindings - j)") auto

declare groupByContext_inner.simps [simp del]

function groupByContext_outer ::
  "Keybinding list \<Rightarrow> nat \<Rightarrow> Keybinding list list \<Rightarrow> nat set \<Rightarrow> Keybinding list list"
where
  "groupByContext_outer bindings i groups processed =
     (if i < length bindings then
        (if i \<in> processed then groupByContext_outer bindings (i + 1) groups processed
         else (case groupByContext_inner bindings i (i + 1) [bindings ! i] (insert i processed) of
                 (grp, processed') \<Rightarrow>
                   groupByContext_outer bindings (i + 1) (groups @ [grp]) processed'))
      else groups)"
  by pat_completeness auto
termination
  by (relation "measure (\<lambda>(bindings, i, groups, processed). length bindings - i)") auto

declare groupByContext_outer.simps [simp del]

definition groupByContext :: "Keybinding list \<Rightarrow> Keybinding list list" where
  "groupByContext bindings = groupByContext_outer bindings 0 [] {}"

definition keyMap_add :: "(string \<times> Keybinding list) list \<Rightarrow> Keybinding \<Rightarrow> (string \<times> Keybinding list) list" where
  "keyMap_add keyMap binding =
     (let normalizedKey = normalizeKey (key_k binding);
          existing = (case Map_get keyMap normalizedKey of None \<Rightarrow> [] | Some bs \<Rightarrow> bs)
      in Map_set normalizedKey (existing @ [binding]) keyMap)"

definition conflict_of :: "Keybinding list \<Rightarrow> KeybindingConflict" where
  "conflict_of grp =
     \<lparr>key_c = key_k (hd grp), bindings_c = grp,
      involvesUserBinding = list_ex (\<lambda>b. source_k b = User) grp\<rparr>"

definition conflicts_of_bucket :: "Keybinding list \<Rightarrow> KeybindingConflict list" where
  "conflicts_of_bucket bindings =
     (if length bindings > 1
      then map conflict_of (filter (\<lambda>grp. length grp > 1) (groupByContext bindings))
      else [])"

definition detectConflicts :: "Keybinding list \<Rightarrow> Keybinding list \<Rightarrow> KeybindingConflict list" where
  "detectConflicts userBindings extensionBindings =
     (let allBindings = userBindings @ extensionBindings;
          keyMap = foldl keyMap_add [] allBindings
      in concat (map (\<lambda>(key, bindings). conflicts_of_bucket bindings) keyMap))"

subsection \<open>JSON text (JSON.parse, JSON.stringify)\<close>

text \<open>
  The two built-in functions the services call, after ECMA-262, on texts of code units
  below 256. \<open>JSON_parse\<close> gives \<^term>\<open>None\<close> where \<^verbatim>\<open>JSON.parse\<close> throws a SyntaxError.
  Two things are not modelled. A number is kept as the literal the text holds: its
  conversion to a double and back is left out, so that \<open>JSON_stringify\<close> writes \<^verbatim>\<open>1.0\<close> for
  the literal \<^verbatim>\<open>1.0\<close> where \<^verbatim>\<open>JSON.stringify\<close> writes \<^verbatim>\<open>1\<close>. An escape \<^verbatim>\<open>\uXXXX\<close> above
  \<^verbatim>\<open>00FF\<close> names a code unit outside the alphabet and is refused like a syntax error. The
  two functions are used at texts without numbers and without such escapes only; what is
  stated for all contents is stated for whatever the two built-in functions compute.
\<close>

abbreviation dq :: char where "dq \<equiv> CHR 0x22"
abbreviation bsl :: char where "bsl \<equiv> CHR 0x5C"
abbreviation nl :: char where "nl \<equiv> CHR 0x0A"

datatype json =
    JNull
  | JBool bool
  | JNumber string
  | JString string
  | JArray "json list"
  | JObject "(string \<times> json) list"

definition is_json_ws :: "char \<Rightarrow> bool" where
  "is_json_ws c = ((of_char c :: nat) \<in> {9, 10, 13, 32})"

definition skip_ws :: "string \<Rightarrow> string" where
  "skip_ws cs = dropWhile is_json_ws cs"

definition is_digit :: "char \<Rightarrow> bool" where
  "is_digit c = (48 \<le> (of_char c :: nat) \<and> (of_char c :: nat) \<le> 57)"

definition hexval :: "char \<Rightarrow> nat option" where
  "hexval c =
     (let n = (of_char c :: nat)
      in if 48 \<le> n \<and> n \<le> 57 then Some (n - 48)
         else if 65 \<le> n \<and> n \<le> 70 then Some (n - 55)
         else if 97 \<le> n \<and> n \<le> 102 then Some (n - 87)
         else None)"

definition hex4 :: "char \<Rightarrow> char \<Rightarrow> char \<Rightarrow> char \<Rightarrow> nat option" where
  "hex4 a b c d =
     (case (hexval a, hexval b, hexval c, hexval d) of
        (Some x, Some y, Some z, Some w) \<Rightarrow> Some (((x * 16 + y) * 16 + z) * 16 + w)
      | _ \<Rightarrow> None)"

definition unescape :: "char \<Rightarrow> char option" where
  "unescape e =
     (if e = dq then Some dq
      else if e = bsl then Some bsl
      else if e = CHR ''/'' then Some (CHR ''/'')
      else if e = CHR ''b'' then Some (CHR 0x08)
      else if e = CHR ''f'' then Some (CHR 0x0C)
      else if e = CHR ''n'' then Some (CHR 0x0A)
      else if e = CHR ''r'' then Some (CHR 0x0D)
      else if e = CHR ''t'' then Some (CHR 0x09)
      else None)"

text \<open>A string literal, read from behind its opening quote; \<open>acc\<close> holds the characters
  read so far. The result is the string's value and the text behind the closing quote.\<close>

fun parse_string_body :: "string \<Rightarrow> string \<Rightarrow> (string \<times> string) option" where
  "parse_string_body acc [] = None"
| "parse_string_body acc (c # cs) =
     (if c = dq then Some (acc, cs)
      else if c = bsl then
        (case cs of
           [] \<Rightarrow> None
         | e # r \<Rightarrow>
             if e = CHR ''u'' then
               (case r of
                  a # b # c' # d # r' \<Rightarrow>
                    (case hex4 a b c' d of
                       None \<Rightarrow> None
                     | Some n \<Rightarrow> if n < 256 then parse_string_body (acc @ [char_of n]) r' else None)
                | _ \<Rightarrow> None)
             else (case unescape e of
                     None \<Rightarrow> None
                   | Some x \<Rightarrow> parse_string_body (acc @ [x]) r))
      else if (of_char c :: nat) < 32 then None
      else parse_string_body (acc @ [c]) cs)"

text \<open>A number literal: \<^verbatim>\<open>-? (0 | [1-9][0-9]*) (. [0-9]+)? ([eE] [+-]? [0-9]+)?\<close>.
  Each part gives the characters it read and the rest.\<close>

definition number_int :: "string \<Rightarrow> (string \<times> string) option" where
  "number_int cs =
     (let ds = takeWhile is_digit cs
      in if ds = [] \<or> (length ds > 1 \<and> hd ds = CHR ''0'') then None
         else Some (ds, dropWhile is_digit cs))"

definition number_frac :: "string \<Rightarrow> (string \<times> string) option" where
  "number_frac cs =
     (case cs of
        c # r \<Rightarrow>
          if c = CHR ''.'' then
            (let ds = takeWhile is_digit r
             in if ds = [] then None else Some (c # ds, dropWhile is_digit r))
          else Some ([], cs)
      | [] \<Rightarrow> Some ([], cs))"

definition number_exp :: "string \<Rightarrow> (string \<times> string) option" where
  "number_exp cs =
     (case cs of
        c # r \<Rightarrow>
          if c = CHR ''e'' \<or> c = CHR ''E'' then
            (let (sign, r1) = (case r of
                                 s # r' \<Rightarrow> if s = CHR ''+'' \<or> s = CHR ''-'' then ([s], r') else ([], r)
                               | [] \<Rightarrow> ([], r));
                 ds = takeWhile is_digit r1
             in if ds = [] then None else Some (c # sign @ ds, dropWhile is_digit r1))
          else Some ([], cs)
      | [] \<Rightarrow> Some ([], cs))"

definition parse_number :: "string \<Rightarrow> (string \<times> string) option" where
  "parse_number cs =
     (let (sign, r0) = (case cs of
                          c # r \<Rightarrow> if c = CHR ''-'' then ([c], r) else ([], cs)
                        | [] \<Rightarrow> ([], cs))
      in case number_int r0 of
           None \<Rightarrow> None
         | Some (i, r1) \<Rightarrow>
             (case number_frac r1 of
                None \<Rightarrow> None
              | Some (f, r2) \<Rightarrow>
                  (case number_exp r2 of
                     None \<Rightarrow> None
                   | Some (e, r3) \<Rightarrow> Some (sign @ i @ f @ e, r3))))"

text \<open>
  The keys of the object \<^verbatim>\<open>JSON.parse\<close> builds: a key met again keeps its place and takes
  the new value; an array index (a canonical numeral below \<open>2^32 - 1\<close>) stands before every
  other key, in ascending order; any other key is appended.
\<close>

definition digits_value :: "string \<Rightarrow> nat" where
  "digits_value ds = foldl (\<lambda>n c. 10 * n + ((of_char c :: nat) - 48)) 0 ds"

definition isArrayIndex :: "string \<Rightarrow> bool" where
  "isArrayIndex k =
     (k \<noteq> [] \<and> list_all is_digit k \<and> (k = ''0'' \<or> hd k \<noteq> CHR ''0'') \<and>
      length k \<le> 10 \<and> digits_value k < 4294967295)"

fun insert_index :: "string \<Rightarrow> json \<Rightarrow> (string \<times> json) list \<Rightarrow> (string \<times> json) list" where
  "insert_index k v [] = [(k, v)]"
| "insert_index k v ((k', v') # m) =
     (if isArrayIndex k' \<and> digits_value k' < digits_value k
      then (k', v') # insert_index k v m
      else (k, v) # (k', v') # m)"

definition obj_put :: "string \<Rightarrow> json \<Rightarrow> (string \<times> json) list \<Rightarrow> (string \<times> json) list" where
  "obj_put k v m =
     (if Map_get m k \<noteq> None then Map_set k v m
      else if isArrayIndex k then insert_index k v m
      else m @ [(k, v)])"

lemma length_skip_ws: "length (skip_ws cs) \<le> length cs"
  by (simp add: skip_ws_def length_dropWhile_le)

text \<open>
  A value, read from its first character; the elements of an array, read from behind
  \<^verbatim>\<open>[\<close> or a comma; the members of an object, read from behind \<^verbatim>\<open>{\<close> or a comma. Each
  gives the value and the text behind it. The comparisons of lengths before a recursive
  call hold on every input: they make the recursion visibly well-founded and change no
  result (lemmas \<open>parse_elements_unguarded\<close> and \<open>parse_members_unguarded\<close> below).
\<close>

function parse_value :: "string \<Rightarrow> (json \<times> string) option"
  and parse_elements :: "json list \<Rightarrow> string \<Rightarrow> (json \<times> string) option"
  and parse_members :: "(string \<times> json) list \<Rightarrow> string \<Rightarrow> (json \<times> string) option"
where
  "parse_value cs =
     (case cs of
        [] \<Rightarrow> None
      | c # r \<Rightarrow>
          if c = CHR ''['' then
            (case skip_ws r of
               [] \<Rightarrow> None
             | d # r' \<Rightarrow> if d = CHR '']'' then Some (JArray [], r') else parse_elements [] r)
          else if c = CHR ''{'' then
            (case skip_ws r of
               [] \<Rightarrow> None
             | d # r' \<Rightarrow> if d = CHR ''}'' then Some (JObject [], r') else parse_members [] r)
          else if c = dq then
            (case parse_string_body [] r of
               None \<Rightarrow> None
             | Some (s, r') \<Rightarrow> Some (JString s, r'))
          else if startsWith cs ''null'' then Some (JNull, drop 4 cs)
          else if startsWith cs ''true'' then Some (JBool True, drop 4 cs)
          else if startsWith cs ''false'' then Some (JBool False, drop 5 cs)
          else (case parse_number cs of
                  None \<Rightarrow> None
                | Some (lit, r') \<Rightarrow> Some (JNumber lit, r')))"
| "parse_elements acc cs =
     (case parse_value (skip_ws cs) of
        None \<Rightarrow> None
      | Some (v, r) \<Rightarrow>
          (case skip_ws r of
             [] \<Rightarrow> None
           | d # r' \<Rightarrow>
               if d = CHR '','' then
                 (if length r' < length cs then parse_elements (acc @ [v]) r' else None)
               else if d = CHR '']'' then Some (JArray (acc @ [v]), r')
               else None))"
| "parse_members acc cs =
     (case skip_ws cs of
        [] \<Rightarrow> None
      | q # r0 \<Rightarrow>
          if q \<noteq> dq then None
          else (case parse_string_body [] r0 of
                  None \<Rightarrow> None
                | Some (k, r1) \<Rightarrow>
                    (case skip_ws r1 of
                       [] \<Rightarrow> None
                     | col # r2 \<Rightarrow>
                         if col \<noteq> CHR '':'' \<or> \<not> length r2 < length cs then None
                         else (case parse_value (skip_ws r2) of
                                 None \<Rightarrow> None
                               | Some (v, r3) \<Rightarrow>
                                   (case skip_ws r3 of
                                      [] \<Rightarrow> None
                                    | d # r4 \<Rightarrow>
                                        if d = CHR '','' then
                                          (if length r4 < length cs
                                           then parse_members (obj_put k v acc) r4 else None)
                                        else if d = CHR ''}'' then Some (JObject (obj_put k v acc), r4)
                                        else None)))))"
  by pat_completeness auto
termination
  apply (relation "measure (\<lambda>x. case x of
          Inl cs \<Rightarrow> 2 * length cs
        | Inr (Inl (acc, cs)) \<Rightarrow> 2 * length cs + 1
        | Inr (Inr (acc, cs)) \<Rightarrow> 2 * length cs + 1)")
        apply simp_all
  subgoal for cs using length_skip_ws [of cs] by simp
  subgoal for cs q r0 x k r1 r2 using length_skip_ws [of r2] by simp
  done

declare parse_value.simps [simp del] parse_elements.simps [simp del] parse_members.simps [simp del]

definition JSON_parse :: "string \<Rightarrow> json option" where
  "JSON_parse text =
     (case parse_value (skip_ws text) of
        None \<Rightarrow> None
      | Some (v, r) \<Rightarrow> if skip_ws r = [] then Some v else None)"

text \<open>\<^verbatim>\<open>Array.isArray(parsed) ? parsed : []\<close>\<close>

definition arrayOrEmpty :: "json \<Rightarrow> json list" where
  "arrayOrEmpty parsed = (case parsed of JArray xs \<Rightarrow> xs | _ \<Rightarrow> [])"

text \<open>\<^verbatim>\<open>QuoteJSONString\<close>: the characters \<^verbatim>\<open>JSON.stringify\<close> escapes.\<close>

definition quote_char :: "char \<Rightarrow> string" where
  "quote_char c =
     (let n = (of_char c :: nat)
      in if c = dq then [bsl, dq]
         else if c = bsl then [bsl, bsl]
         else if n = 8 then [bsl, CHR ''b'']
         else if n = 9 then [bsl, CHR ''t'']
         else if n = 10 then [bsl, CHR ''n'']
         else if n = 12 then [bsl, CHR ''f'']
         else if n = 13 then [bsl, CHR ''r'']
         else if n < 32 then [bsl, CHR ''u'', CHR ''0'', CHR ''0'', hexDigit (n div 16), hexDigit (n mod 16)]
         else [c])"

definition quote :: "string \<Rightarrow> string" where
  "quote s = [dq] @ concat (map quote_char s) @ [dq]"

text \<open>\<^verbatim>\<open>JSON.stringify(value, null, 2)\<close> at the indentation \<open>ind\<close>.\<close>

fun stringify_at :: "string \<Rightarrow> json \<Rightarrow> string"
  and stringify_items :: "string \<Rightarrow> json list \<Rightarrow> string list"
  and stringify_members :: "string \<Rightarrow> (string \<times> json) list \<Rightarrow> string list"
where
  "stringify_at ind JNull = ''null''"
| "stringify_at ind (JBool b) = (if b then ''true'' else ''false'')"
| "stringify_at ind (JNumber lit) = lit"
| "stringify_at ind (JString s) = quote s"
| "stringify_at ind (JArray xs) =
     (if xs = [] then ''[]''
      else ''['' @ [nl] @ (ind @ ''  '') @
           join ('','' @ [nl] @ (ind @ ''  '')) (stringify_items (ind @ ''  '') xs) @
           [nl] @ ind @ '']'')"
| "stringify_at ind (JObject ms) =
     (if ms = [] then ''{}''
      else ''{'' @ [nl] @ (ind @ ''  '') @
           join ('','' @ [nl] @ (ind @ ''  '')) (stringify_members (ind @ ''  '') ms) @
           [nl] @ ind @ ''}'')"
| "stringify_items ind [] = []"
| "stringify_items ind (x # xs) = stringify_at ind x # stringify_items ind xs"
| "stringify_members ind [] = []"
| "stringify_members ind ((k, v) # ms) =
     (quote k @ '': '' @ stringify_at ind v) # stringify_members ind ms"

definition JSON_stringify :: "json \<Rightarrow> string" where
  "JSON_stringify v = stringify_at [] v"

subsection \<open>Reading keybindings.json (KeybindingsFileService)\<close>

text \<open>\<^verbatim>\<open>content[i]\<close>: \<^verbatim>\<open>undefined\<close> outside the string.\<close>

definition charAt :: "string \<Rightarrow> int \<Rightarrow> char option" where
  "charAt content i = (if 0 \<le> i \<and> i < int (length content) then Some (content ! nat i) else None)"

text \<open>The loop of \<^verbatim>\<open>stripJsonComments\<close>, from index \<open>i\<close> with the four variables it keeps.\<close>

function stripJsonComments_loop ::
  "string \<Rightarrow> nat \<Rightarrow> string \<Rightarrow> bool \<Rightarrow> bool \<Rightarrow> bool \<Rightarrow> string"
where
  "stripJsonComments_loop content i result inString inLineComment inBlockComment =
     (if i < length content then
        (let char = content ! i;
             nextChar = charAt content (int i + 1)
         in if inString then
              (if char = dq \<and> charAt content (int i - 1) \<noteq> Some bsl
               then stripJsonComments_loop content (i + 1) (result @ [char]) False inLineComment inBlockComment
               else stripJsonComments_loop content (i + 1) (result @ [char]) inString inLineComment inBlockComment)
            else if inLineComment then
              (if char = nl
               then stripJsonComments_loop content (i + 1) (result @ [char]) inString False inBlockComment
               else stripJsonComments_loop content (i + 1) result inString inLineComment inBlockComment)
            else if inBlockComment then
              (if char = CHR ''*'' \<and> nextChar = Some (CHR ''/'')
               then stripJsonComments_loop content (i + 2) result inString inLineComment False
               else stripJsonComments_loop content (i + 1) result inString inLineComment inBlockComment)
            else if char = dq then
              stripJsonComments_loop content (i + 1) (result @ [char]) True inLineComment inBlockComment
            else if char = CHR ''/'' \<and> nextChar = Some (CHR ''/'') then
              stripJsonComments_loop content (i + 2) result inString True inBlockComment
            else if char = CHR ''/'' \<and> nextChar = Some (CHR ''*'') then
              stripJsonComments_loop content (i + 2) result inString inLineComment True
            else stripJsonComments_loop content (i + 1) (result @ [char]) inString inLineComment inBlockComment)
      else result)"
  by pat_completeness auto
termination
  by (relation "measure (\<lambda>(content, i, result, inString, inLineComment, inBlockComment).
                  length content - i)") auto

declare stripJsonComments_loop.simps [simp del]

definition stripJsonComments :: "string \<Rightarrow> string" where
  "stripJsonComments content = stripJsonComments_loop content 0 [] False False False"

text \<open>\<^verbatim>\<open>parseKeybindings\<close>: the \<^verbatim>\<open>catch\<close> turns the SyntaxError of \<^verbatim>\<open>JSON.parse\<close> into the
  empty list. The elements are what the text holds; the TypeScript type
  \<^verbatim>\<open>UserKeybindingEntry[]\<close> is not checked at run time.\<close>

definition parseKeybindings :: "string \<Rightarrow> json list" where
  "parseKeybindings content =
     (case JSON_parse (stripJsonComments content) of
        None \<Rightarrow> []
      | Some parsed \<Rightarrow> arrayOrEmpty parsed)"

text \<open>
  The reading of a comment the format JSONC gives, for comparison with
  \<open>stripJsonComments\<close>: inside a string literal a backslash escapes the character that
  follows it, so a quote ends the literal exactly when it is not escaped.
\<close>

datatype strip_mode = InCode | InString | InLineComment | InBlockComment

fun stripJsonComments_reference :: "strip_mode \<Rightarrow> string \<Rightarrow> string" where
  "stripJsonComments_reference m [] = []"
| "stripJsonComments_reference InString (c # cs) =
     (if c = bsl then
        (case cs of
           [] \<Rightarrow> [c]
         | e # r \<Rightarrow> c # e # stripJsonComments_reference InString r)
      else if c = dq then c # stripJsonComments_reference InCode cs
      else c # stripJsonComments_reference InString cs)"
| "stripJsonComments_reference InLineComment (c # cs) =
     (if c = nl then c # stripJsonComments_reference InCode cs
      else stripJsonComments_reference InLineComment cs)"
| "stripJsonComments_reference InBlockComment (c # cs) =
     (case cs of
        [] \<Rightarrow> []
      | d # r \<Rightarrow>
          if c = CHR ''*'' \<and> d = CHR ''/'' then stripJsonComments_reference InCode r
          else stripJsonComments_reference InBlockComment cs)"
| "stripJsonComments_reference InCode (c # cs) =
     (if c = dq then c # stripJsonComments_reference InString cs
      else (case cs of
              [] \<Rightarrow> [c]
            | d # r \<Rightarrow>
                if c = CHR ''/'' \<and> d = CHR ''/'' then stripJsonComments_reference InLineComment r
                else if c = CHR ''/'' \<and> d = CHR ''*'' then stripJsonComments_reference InBlockComment r
                else c # stripJsonComments_reference InCode cs))"

text \<open>The mode of the reference that stands for the three flags of the loop, of which at
  most one is set.\<close>

definition mode_of :: "bool \<Rightarrow> bool \<Rightarrow> bool \<Rightarrow> strip_mode" where
  "mode_of inString' inLineComment' inBlockComment' =
     (if inString' then InString
      else if inLineComment' then InLineComment
      else if inBlockComment' then InBlockComment
      else InCode)"

subsection \<open>The host: file, key-value store, governance service\<close>

text \<open>
  \<open>keybindingsFile\<close> is the content of \<^verbatim>\<open>keybindings.json\<close>, \<^term>\<open>None\<close> when the file
  cannot be read; \<open>snapshotStore\<close> is the value under \<^verbatim>\<open>SNAPSHOTS_KEY\<close> in the global
  state; \<open>governance\<close> is the governance state store. Writing the file is taken to succeed.
\<close>

record Host =
  keybindingsFile :: "string option"
  snapshotStore :: "Snapshot list"
  governance :: GovernanceService

datatype js_error = SyntaxError

definition readRaw :: "Host \<Rightarrow> string" where
  "readRaw h = (case keybindingsFile h of None \<Rightarrow> ''[]'' | Some content \<Rightarrow> content)"

definition read_file :: "Host \<Rightarrow> json list" where
  "read_file h = parseKeybindings (readRaw h)"

definition write_file :: "json list \<Rightarrow> Host \<Rightarrow> Host" where
  "write_file keybindings h = h\<lparr>keybindingsFile := Some (JSON_stringify (JArray keybindings))\<rparr>"

text \<open>\<^verbatim>\<open>write\<close> with the serialisation as a parameter: \<open>stringify keybindings\<close> stands for
  \<^verbatim>\<open>JSON.stringify(keybindings, null, 2)\<close>.\<close>

definition write_with :: "('j list \<Rightarrow> string) \<Rightarrow> 'j list \<Rightarrow> Host \<Rightarrow> Host" where
  "write_with stringify keybindings h = h\<lparr>keybindingsFile := Some (stringify keybindings)\<rparr>"

subsection \<open>The file mutation protocol (KeybindingsFileService)\<close>

text \<open>
  Each method below reads the configuration list (\<^verbatim>\<open>await this.read()\<close>), changes it and
  hands it to \<^verbatim>\<open>this.write\<close>. The methods are modelled on the list at its TypeScript type
  \<^verbatim>\<open>UserKeybindingEntry[]\<close>: the argument is the list \<^verbatim>\<open>read()\<close> returned, the result is the
  list given to \<^verbatim>\<open>write\<close> (the list unchanged where the method does not write), with the
  value the method returns. \<^verbatim>\<open>findIndex\<close> gives \<^term>\<open>None\<close> for \<^verbatim>\<open>-1\<close>.
\<close>

fun findIndex :: "('a \<Rightarrow> bool) \<Rightarrow> 'a list \<Rightarrow> nat option" where
  "findIndex P [] = None"
| "findIndex P (x # xs) =
     (if P x then Some 0 else (case findIndex P xs of None \<Rightarrow> None | Some i \<Rightarrow> Some (Suc i)))"

text \<open>\<^verbatim>\<open>xs.splice(index, 1)\<close>, for an index below the length.\<close>

definition splice1 :: "nat \<Rightarrow> 'a list \<Rightarrow> 'a list" where
  "splice1 index xs = take index xs @ drop (Suc index) xs"


definition removeEntry ::
  "string \<Rightarrow> string \<Rightarrow> 'a UserKeybindingEntry list \<Rightarrow> bool \<times> 'a UserKeybindingEntry list"
where
  "removeEntry key command keybindings =
     (case findIndex (\<lambda>kb. key_e kb = key \<and> command_e kb = command) keybindings of
        None \<Rightarrow> (False, keybindings)
      | Some index \<Rightarrow> (True, splice1 index keybindings))"


definition restoreKeybinding ::
  "string \<Rightarrow> string \<Rightarrow> string option \<Rightarrow> 'a UserKeybindingEntry list \<Rightarrow> bool \<times> 'a UserKeybindingEntry list"
where
  "restoreKeybinding key command when keybindings =
     (let negatedCommand = ''-'' @ command
      in case findIndex (\<lambda>kb.
                let keyMatches = (key_e kb = key);
                    commandMatches = (command_e kb = negatedCommand);
                    whenMatches = (if truthy when then when_e kb = when else \<not> truthy (when_e kb))
                in keyMatches \<and> commandMatches \<and> whenMatches) keybindings of
           None \<Rightarrow> (False, keybindings)
         | Some index \<Rightarrow> (True, splice1 index keybindings))"

text \<open>The callback \<^verbatim>\<open>restoreKeybinding\<close> gives to \<^verbatim>\<open>findIndex\<close>, by name.\<close>

definition negationMatches :: "string \<Rightarrow> string \<Rightarrow> string option \<Rightarrow> 'a UserKeybindingEntry \<Rightarrow> bool" where
  "negationMatches key command when kb =
     (key_e kb = key \<and> command_e kb = ''-'' @ command \<and>
      (if truthy when then when_e kb = when else \<not> truthy (when_e kb)))"



definition remapKeybinding ::
  "string \<Rightarrow> string \<Rightarrow> string \<Rightarrow> string option \<Rightarrow> 'a UserKeybindingEntry list \<Rightarrow> 'a UserKeybindingEntry list"
where
  "remapKeybinding originalKey' newKey command when keybindings =
     (let negatedCommand = ''-'' @ command;
          keybindings = filter (\<lambda>kb.
              let isNegation = (command_e kb = negatedCommand);
                  isPositive = (command_e kb = command)
              in \<not> isNegation \<and> \<not> isPositive) keybindings;
          negationEntry = \<lparr>key_e = originalKey', command_e = negatedCommand, when_e = None, args_e = None\<rparr>;
          negationEntry = (if truthy when then negationEntry\<lparr>when_e := when\<rparr> else negationEntry);
          newEntry = \<lparr>key_e = newKey, command_e = command, when_e = None, args_e = None\<rparr>;
          newEntry = (if truthy when then newEntry\<lparr>when_e := when\<rparr> else newEntry)
      in keybindings @ [negationEntry, newEntry])"

definition removeRemapEntries ::
  "string \<Rightarrow> 'a UserKeybindingEntry list \<Rightarrow> bool \<times> 'a UserKeybindingEntry list"
where
  "removeRemapEntries command keybindings =
     (let negatedCommand = ''-'' @ command;
          filtered = filter (\<lambda>kb. command_e kb \<noteq> negatedCommand \<and> command_e kb \<noteq> command) keybindings
      in if length filtered < length keybindings then (True, filtered) else (False, keybindings))"

subsection \<open>Snapshot manager (SnapshotService)\<close>

definition MAX_SNAPSHOTS :: nat where
  "MAX_SNAPSHOTS = 10"

text \<open>\<^verbatim>\<open>getSnapshots\<close> takes the array stored under \<^verbatim>\<open>SNAPSHOTS_KEY\<close> and sorts it with
  \<^verbatim>\<open>snapshots.sort((a, b) => b.createdAt - a.createdAt)\<close>: a stable sort, the latest first,
  done in place, so that the stored array itself is in sorted order after every call. The
  method gives back the sorted list; every method that reads the store goes on with the
  host whose store is sorted.\<close>

definition getSnapshots :: "Host \<Rightarrow> Snapshot list \<times> Host" where
  "getSnapshots h =
     (let snapshots = sort_key (\<lambda>s. - createdAt_s s) (snapshotStore h)
      in (snapshots, h\<lparr>snapshotStore := snapshots\<rparr>))"

definition saveSnapshot :: "Snapshot \<Rightarrow> Host \<Rightarrow> Host" where
  "saveSnapshot snapshot h =
     (case getSnapshots h of (snapshots, h) \<Rightarrow>
       (let baseIndex = findIndex (\<lambda>s. name_s s = ''Base Snapshot'') snapshots;
            (baseSnapshot, snapshots) =
               (case baseIndex of
                  None \<Rightarrow> (None, snapshots)
                | Some i \<Rightarrow> (Some (snapshots ! i), splice1 i snapshots));
            snapshots = snapshot # snapshots;
            limit = MAX_SNAPSHOTS - (if baseSnapshot \<noteq> None then 1 else 0);
            snapshots = (if length snapshots > limit then take limit snapshots else snapshots);
            snapshots = (case baseSnapshot of
                           Some b \<Rightarrow> snapshots @ [b]
                         | None \<Rightarrow> snapshots)
        in h\<lparr>snapshotStore := snapshots\<rparr>))"

text \<open>\<open>newId\<close> is the value of \<^verbatim>\<open>generateSnapshotId()\<close> and \<open>now\<close> that of
  \<^verbatim>\<open>Date.now()\<close>.\<close>

definition createSnapshot :: "string \<Rightarrow> GovernanceState \<Rightarrow> string \<Rightarrow> int \<Rightarrow> Host \<Rightarrow> Snapshot \<times> Host" where
  "createSnapshot name governanceState newId now h =
     (let keybindingsContent = readRaw h;
          snapshot = \<lparr>id_s = newId, name_s = name, createdAt_s = now,
                      keybindingsContent_s = keybindingsContent,
                      governanceState_s = governanceState\<rparr>
      in (snapshot, saveSnapshot snapshot h))"

definition createBaseSnapshot :: "GovernanceState \<Rightarrow> string \<Rightarrow> int \<Rightarrow> Host \<Rightarrow> Snapshot \<times> Host" where
  "createBaseSnapshot governanceState newId now h =
     (case getSnapshots h of (existingSnapshots, h) \<Rightarrow>
       (case find (\<lambda>s. name_s s = ''Base Snapshot'') existingSnapshots of
          Some baseSnapshot \<Rightarrow> (baseSnapshot, h)
        | None \<Rightarrow> createSnapshot ''Base Snapshot'' governanceState newId now h))"

text \<open>
  \<^verbatim>\<open>restoreSnapshot\<close> calls \<^verbatim>\<open>JSON.parse\<close> on the stored content and hands
  \<^verbatim>\<open>Array.isArray(parsed) ? parsed : []\<close> to \<^verbatim>\<open>fileService.write\<close>, which writes
  \<^verbatim>\<open>JSON.stringify(keybindings, null, 2)\<close>. The three functions of the platform enter
  \<open>restoreSnapshot_with\<close> as its parameters \<open>parse\<close> (\<^term>\<open>None\<close> where \<^verbatim>\<open>JSON.parse\<close>
  throws), \<open>asArray\<close> and \<open>stringify\<close>; \<open>restoreSnapshot\<close> is the method with the JSON
  functions of this theory. \<^term>\<open>Inl\<close> is the SyntaxError of \<^verbatim>\<open>JSON.parse\<close>, which the method
  lets pass; \<^term>\<open>Inr None\<close> is \<^verbatim>\<open>undefined\<close>.
\<close>

definition restoreSnapshot_with ::
  "(string \<Rightarrow> 'j option) \<Rightarrow> ('j \<Rightarrow> 'j list) \<Rightarrow> ('j list \<Rightarrow> string) \<Rightarrow>
   string \<Rightarrow> Host \<Rightarrow> (js_error + GovernanceState option) \<times> Host"
where
  "restoreSnapshot_with parse asArray stringify snapshotId h =
     (case getSnapshots h of (snapshots, h) \<Rightarrow>
       (case find (\<lambda>s. id_s s = snapshotId) snapshots of
          None \<Rightarrow> (Inr None, h)
        | Some snapshot \<Rightarrow>
            (case parse (keybindingsContent_s snapshot) of
               None \<Rightarrow> (Inl SyntaxError, h)
             | Some parsed \<Rightarrow>
                 (Inr (Some (governanceState_s snapshot)),
                  write_with stringify (asArray parsed) h))))"

definition restoreSnapshot :: "string \<Rightarrow> Host \<Rightarrow> (js_error + GovernanceState option) \<times> Host" where
  "restoreSnapshot snapshotId h =
     restoreSnapshot_with JSON_parse arrayOrEmpty (\<lambda>keybindings. JSON_stringify (JArray keybindings))
       snapshotId h"

definition deleteSnapshot :: "string \<Rightarrow> Host \<Rightarrow> bool \<times> Host" where
  "deleteSnapshot snapshotId h =
     (case getSnapshots h of (snapshots, h) \<Rightarrow>
       (case findIndex (\<lambda>s. id_s s = snapshotId) snapshots of
          None \<Rightarrow> (False, h)
        | Some index \<Rightarrow> (True, h\<lparr>snapshotStore := splice1 index snapshots\<rparr>)))"

definition getSnapshot :: "string \<Rightarrow> Host \<Rightarrow> Snapshot option \<times> Host" where
  "getSnapshot snapshotId h =
     (case getSnapshots h of (snapshots, h) \<Rightarrow> (find (\<lambda>s. id_s s = snapshotId) snapshots, h))"

definition renameSnapshot :: "string \<Rightarrow> string \<Rightarrow> Host \<Rightarrow> bool \<times> Host" where
  "renameSnapshot snapshotId newName h =
     (case getSnapshots h of (snapshots, h) \<Rightarrow>
       (case findIndex (\<lambda>s. id_s s = snapshotId) snapshots of
          None \<Rightarrow> (False, h)
        | Some index \<Rightarrow>
            (True, h\<lparr>snapshotStore := snapshots[index := (snapshots ! index)\<lparr>name_s := newName\<rparr>]\<rparr>)))"

text \<open>A run of \<^verbatim>\<open>createSnapshot\<close> calls, one per element: name, governance state, id and
  time of the call.\<close>

fun createSnapshots :: "(string \<times> GovernanceState \<times> string \<times> int) list \<Rightarrow> Host \<Rightarrow> Host" where
  "createSnapshots [] h = h"
| "createSnapshots ((name, governanceState, newId, now) # calls) h =
     createSnapshots calls (snd (createSnapshot name governanceState newId now h))"

subsection \<open>Example inputs\<close>

text \<open>A user binding and an extension binding on the same key, with the identities
  \<^verbatim>\<open>generateKeybindingId\<close> gives them.\<close>

definition kbU :: Keybinding where
  "kbU = \<lparr>id_k = ''40895379'', key_k = ''ctrl+k'', command_k = ''foo'', when_k = None,
          source_k = User, extensionId_k = None, extensionName_k = None\<rparr>"

definition kbE :: Keybinding where
  "kbE = \<lparr>id_k = ''408b5926'', key_k = ''ctrl+k'', command_k = ''bar'', when_k = None,
          source_k = Extension, extensionId_k = Some ''pub.ext'', extensionName_k = Some ''Ext''\<rparr>"

text \<open>A second extension binding on the same key.\<close>

definition kbE2 :: Keybinding where
  "kbE2 = \<lparr>id_k = ''408b582e'', key_k = ''ctrl+k'', command_k = ''baz'', when_k = None,
           source_k = Extension, extensionId_k = Some ''pub.other'',
           extensionName_k = Some ''Other''\<rparr>"

text \<open>Two entries of a configuration list: the negation of \<^verbatim>\<open>foo\<close> on \<^verbatim>\<open>ctrl+k\<close> and a
  binding of \<^verbatim>\<open>bar\<close>.\<close>

definition negFoo :: "json UserKeybindingEntry" where
  "negFoo = \<lparr>key_e = ''ctrl+k'', command_e = ''-foo'', when_e = None, args_e = None\<rparr>"

definition posBar :: "json UserKeybindingEntry" where
  "posBar = \<lparr>key_e = ''ctrl+j'', command_e = ''bar'', when_e = None, args_e = None\<rparr>"

text \<open>The test \<^verbatim>\<open>s.name === 'Base Snapshot'\<close> of \<^verbatim>\<open>saveSnapshot\<close>.\<close>

abbreviation isBase :: "Snapshot \<Rightarrow> bool" where
  "isBase s \<equiv> name_s s = ''Base Snapshot''"

text \<open>A store that holds the Base snapshot only, and twelve calls of
  \<^verbatim>\<open>createSnapshot\<close> with names of their own.\<close>

definition baseSnap :: Snapshot where
  "baseSnap = \<lparr>id_s = ''snapshot-0-base00'', name_s = ''Base Snapshot'', createdAt_s = 0,
               keybindingsContent_s = ''[]'', governanceState_s = createEmptyGovernanceState 0\<rparr>"

definition host0 :: Host where
  "host0 = \<lparr>keybindingsFile = Some ''[]'', snapshotStore = [baseSnap],
            governance = initialService 0\<rparr>"

definition call :: "nat \<Rightarrow> string \<times> GovernanceState \<times> string \<times> int" where
  "call n = (''Snapshot '' @ toString16 n, createEmptyGovernanceState 0,
             ''snapshot-'' @ toString16 n, int n)"

definition twelveCalls :: "(string \<times> GovernanceState \<times> string \<times> int) list" where
  "twelveCalls = map call [1..<13]"

text \<open>A snapshot taken of a file written on one line, in a store beside the Base
  snapshot, and a configuration file with a binding on the backslash key and a comment
  behind the array.\<close>

definition snapOneLine :: Snapshot where
  \<open>snapOneLine = \<lparr>id_s = ''snapshot-1-a1b2c3'', name_s = ''Monday'', createdAt_s = 1,
                  keybindingsContent_s = ''[{"key":"ctrl+k","command":"-foo"}]'',
                  governanceState_s = createEmptyGovernanceState 1\<rparr>\<close>

definition host1 :: Host where
  "host1 = \<lparr>keybindingsFile = Some ''[]'', snapshotStore = [baseSnap, snapOneLine],
            governance = initialService 0\<rparr>"

definition backslashKeyFile :: string where
  \<open>backslashKeyFile = ''[{"key":"ctrl+'' @ [bsl, bsl] @ ''","command":"x"}] // c''\<close>

subsection \<open>The conflict detector, as the specification words it\<close>

text \<open>
  For comparison with \<open>detectConflicts\<close>: the buckets are the bindings of each normalized
  key, the keys in the order of their first occurrence and each bucket in arrival order; a
  bucket is cut into groups by taking the first binding left as the seed, putting every
  binding left whose context overlaps the seed's into its group, and going on with the
  rest; the buckets and the groups of two or more bindings are reported.
\<close>

fun groupBySeed :: "Keybinding list \<Rightarrow> Keybinding list list" where
  "groupBySeed [] = []"
| "groupBySeed (seed # rest) =
     (seed # filter (\<lambda>b. contextsOverlap (when_k seed) (when_k b)) rest) #
     groupBySeed (filter (\<lambda>b. \<not> contextsOverlap (when_k seed) (when_k b)) rest)"

definition firstOccurrences :: "'a list \<Rightarrow> 'a list" where
  "firstOccurrences xs = rev (remdups (rev xs))"

definition bucketsByKey :: "Keybinding list \<Rightarrow> (string \<times> Keybinding list) list" where
  "bucketsByKey bindings =
     map (\<lambda>k. (k, filter (\<lambda>b. normalizeKey (key_k b) = k) bindings))
       (firstOccurrences (map (\<lambda>b. normalizeKey (key_k b)) bindings))"

definition detectConflicts_spec :: "Keybinding list \<Rightarrow> Keybinding list \<Rightarrow> KeybindingConflict list" where
  "detectConflicts_spec userBindings extensionBindings =
     concat (map (\<lambda>(key, bucket).
        if 2 \<le> length bucket
        then map (\<lambda>grp. \<lparr>key_c = key_k (hd grp), bindings_c = grp,
                         involvesUserBinding = (\<exists>b\<in>set grp. source_k b = User)\<rparr>)
               (filter (\<lambda>grp. 2 \<le> length grp) (groupBySeed bucket))
        else []) (bucketsByKey (userBindings @ extensionBindings)))"

subsection \<open>The fields of a stored decision, as the specification words them\<close>



section \<open>Properties\<close>

subsection \<open>Identity derivation\<close>

lemma id_input_when_empty: "id_input key command None = id_input key command (Some [])"
  by (simp add: id_input_def)

lemma id_input_shift:
  "id_input (key @ ''|'' @ s) command when = id_input key (s @ ''|'' @ command) when"
  by (simp add: id_input_def)

lemma generateKeybindingId_when_empty:
  "generateKeybindingId key command None = generateKeybindingId key command (Some [])"
  unfolding generateKeybindingId_def id_input_when_empty ..

lemma generateKeybindingId_shift:
  "generateKeybindingId (key @ ''|'' @ s) command when =
   generateKeybindingId key (s @ ''|'' @ command) when"
  unfolding generateKeybindingId_def id_input_shift ..

lemma hash_foo: "foldl hash_step 0 ''ctrl+k|foo|'' = - 1082741625"
  by (simp add: hash_step_def)

lemma toString16_foo: "toString16 1082741625 = ''40895379''"
  by (simp add: hexDigit_def toString16.simps [of 1082741625] toString16.simps [of 67671351] toString16.simps [of 4229459] toString16.simps [of 264341] toString16.simps [of 16521] toString16.simps [of 1032] toString16.simps [of 64] toString16.simps [of 4])

text \<open>The identities of the two example bindings are the ones the function computes.\<close>

lemma id_kbU: "generateKeybindingId ''ctrl+k'' ''foo'' None = id_k kbU"
proof -
  have i: "id_input ''ctrl+k'' ''foo'' None = ''ctrl+k|foo|''"
    by (simp add: id_input_def)
  have a: "nat \<bar>sint (- 1082741625 :: 32 word)\<bar> = 1082741625"
    by simp
  show ?thesis
    unfolding generateKeybindingId_def i hash_foo Let_def a toString16_foo
    by (simp add: padStart_def substring_def kbU_def)
qed

lemma hash_bar: "foldl hash_step 0 ''ctrl+k|bar|'' = - 1082874150"
  by (simp add: hash_step_def)

lemma toString16_bar: "toString16 1082874150 = ''408b5926''"
  by (simp add: hexDigit_def toString16.simps [of 1082874150] toString16.simps [of 67679634] toString16.simps [of 4229977] toString16.simps [of 264373] toString16.simps [of 16523] toString16.simps [of 1032] toString16.simps [of 64] toString16.simps [of 4])

lemma id_kbE: "generateKeybindingId ''ctrl+k'' ''bar'' None = id_k kbE"
proof -
  have i: "id_input ''ctrl+k'' ''bar'' None = ''ctrl+k|bar|''"
    by (simp add: id_input_def)
  have a: "nat \<bar>sint (- 1082874150 :: 32 word)\<bar> = 1082874150"
    by simp
  show ?thesis
    unfolding generateKeybindingId_def i hash_bar Let_def a toString16_bar
    by (simp add: padStart_def substring_def kbE_def)
qed

lemma hash_baz: "foldl hash_step 0 ''ctrl+k|baz|'' = - 1082873902"
  by (simp add: hash_step_def)

lemma toString16_baz: "toString16 1082873902 = ''408b582e''"
  by (simp add: hexDigit_def toString16.simps [of 1082873902] toString16.simps [of 67679618] toString16.simps [of 4229976] toString16.simps [of 264373] toString16.simps [of 16523] toString16.simps [of 1032] toString16.simps [of 64] toString16.simps [of 4])

lemma id_kbE2: "generateKeybindingId ''ctrl+k'' ''baz'' None = id_k kbE2"
proof -
  have i: "id_input ''ctrl+k'' ''baz'' None = ''ctrl+k|baz|''"
    by (simp add: id_input_def)
  have a: "nat \<bar>sint (- 1082873902 :: 32 word)\<bar> = 1082873902"
    by simp
  show ?thesis
    unfolding generateKeybindingId_def i hash_baz Let_def a toString16_baz
    by (simp add: padStart_def substring_def kbE2_def)
qed

text \<open>
  Claim C10. Identity derivation is not injective. A triple with an absent context and
  the same key and command with the empty context are two triples with one identity;
  moving a part that borders on a \<^verbatim>\<open>|\<close> from the key to the command gives two triples with
  one identity; so the map from triples to identities is not injective.
\<close>

theorem generateKeybindingId_not_injective:
  "generateKeybindingId key command None = generateKeybindingId key command (Some [])
   \<and> (key, command, None) \<noteq> (key, command, Some [])
   \<and> generateKeybindingId (key @ ''|'' @ s) command when =
       generateKeybindingId key (s @ ''|'' @ command) when
   \<and> (key @ ''|'' @ s, command, when) \<noteq> (key, s @ ''|'' @ command, when)
   \<and> \<not> inj (\<lambda>(key, command, when). generateKeybindingId key command when)"
proof (intro conjI)
  show "generateKeybindingId key command None = generateKeybindingId key command (Some [])"
    by (rule generateKeybindingId_when_empty)
  show "(key, command, None) \<noteq> (key, command, Some [])"
    by simp
  show "generateKeybindingId (key @ ''|'' @ s) command when =
        generateKeybindingId key (s @ ''|'' @ command) when"
    by (rule generateKeybindingId_shift)
  show "(key @ ''|'' @ s, command, when) \<noteq> (key, s @ ''|'' @ command, when)"
    by simp
  show "\<not> inj (\<lambda>(key, command, when). generateKeybindingId key command when)"
  proof
    assume i: "inj (\<lambda>(key, command, when). generateKeybindingId key command when)"
    have "(\<lambda>(key, command, when). generateKeybindingId key command when) ([], [], None)
        = (\<lambda>(key, command, when). generateKeybindingId key command when) ([], [], Some [])"
      using generateKeybindingId_when_empty [of "[]" "[]"] by (simp only: prod.case)
    from injD [OF i this] show False by simp
  qed
qed

subsection \<open>Governance state store\<close>




text \<open>
  Claim C8. For every service and every identity with no recorded decision,
  \<^verbatim>\<open>getStatus\<close> returns \<^verbatim>\<open>pending\<close> and leaves the service as it was: the state, the
  stored copy and the events are unchanged, and the identity still has no decision.
\<close>

theorem getStatus_default:
  "decisions (state svc) keybindingId' = None \<Longrightarrow>
     getStatus keybindingId' svc = (Pending, svc)
     \<and> decisions (state (snd (getStatus keybindingId' svc))) keybindingId' = None"
  by (simp add: getStatus_def)

theorem getStatus_default_witness:
  "decisions (state (initialService 0)) ''40895379'' = None
   \<and> getStatus ''40895379'' (initialService 0) = (Pending, initialService 0)"
  using getStatus_default [of "initialService 0" "''40895379''"]
  by (simp add: initialService_def createEmptyGovernanceState_def)

















subsection \<open>File mutation protocol\<close>

lemma remapKeybinding_eq:
  "remapKeybinding originalKey' newKey command when keybindings =
     filter (\<lambda>kb. command_e kb \<noteq> ''-'' @ command \<and> command_e kb \<noteq> command) keybindings @
     [\<lparr>key_e = originalKey', command_e = ''-'' @ command,
       when_e = (if truthy when then when else None), args_e = None\<rparr>,
      \<lparr>key_e = newKey, command_e = command,
       when_e = (if truthy when then when else None), args_e = None\<rparr>]"
  by (simp add: remapKeybinding_def Let_def)

text \<open>
  Claim C5. \<^verbatim>\<open>remapKeybinding\<close> drops every entry whose command is the command or its
  negation, then appends the negation entry for the original key and the positive entry
  for the new key, each with the context when it is a non-empty string. After two calls in
  a row for one command (with the same arguments, or with any others for the key, the new
  key and the context) the list holds exactly one negation entry of the command, that of
  the second call, and exactly one positive entry of the command, that of the second call.
\<close>

theorem remapKeybinding_cleanup:
  "remapKeybinding originalKey' newKey command when keybindings =
     filter (\<lambda>kb. command_e kb \<noteq> ''-'' @ command \<and> command_e kb \<noteq> command) keybindings @
     [\<lparr>key_e = originalKey', command_e = ''-'' @ command,
       when_e = (if truthy when then when else None), args_e = None\<rparr>,
      \<lparr>key_e = newKey, command_e = command,
       when_e = (if truthy when then when else None), args_e = None\<rparr>]
   \<and> filter (\<lambda>kb. command_e kb = ''-'' @ command)
        (remapKeybinding originalKey' newKey command when
           (remapKeybinding originalKey' newKey command when keybindings)) =
       [\<lparr>key_e = originalKey', command_e = ''-'' @ command,
         when_e = (if truthy when then when else None), args_e = None\<rparr>]
   \<and> filter (\<lambda>kb. command_e kb = command)
        (remapKeybinding originalKey' newKey command when
           (remapKeybinding originalKey' newKey command when keybindings)) =
       [\<lparr>key_e = newKey, command_e = command,
         when_e = (if truthy when then when else None), args_e = None\<rparr>]
   \<and> filter (\<lambda>kb. command_e kb = ''-'' @ command)
        (remapKeybinding key2 newKey2 command when2
           (remapKeybinding originalKey' newKey command when keybindings)) =
       [\<lparr>key_e = key2, command_e = ''-'' @ command,
         when_e = (if truthy when2 then when2 else None), args_e = None\<rparr>]
   \<and> filter (\<lambda>kb. command_e kb = command)
        (remapKeybinding key2 newKey2 command when2
           (remapKeybinding originalKey' newKey command when keybindings)) =
       [\<lparr>key_e = newKey2, command_e = command,
         when_e = (if truthy when2 then when2 else None), args_e = None\<rparr>]"
  by (auto simp: remapKeybinding_eq filter_empty_conv)


theorem remapKeybinding_cleanup_witness:
  "remapKeybinding ''ctrl+k'' ''ctrl+h'' ''foo'' None
     (remapKeybinding ''ctrl+k'' ''ctrl+j'' ''foo'' None [negFoo, posBar]) =
   [posBar,
    \<lparr>key_e = ''ctrl+k'', command_e = ''-foo'', when_e = None, args_e = None\<rparr>,
    \<lparr>key_e = ''ctrl+h'', command_e = ''foo'', when_e = None, args_e = None\<rparr>]"
  using remapKeybinding_cleanup [of "''ctrl+k''" "''ctrl+j''" "''foo''" None "[negFoo, posBar]"]
        remapKeybinding_cleanup [of "''ctrl+k''" "''ctrl+h''" "''foo''" None
          "remapKeybinding ''ctrl+k'' ''ctrl+j'' ''foo'' None [negFoo, posBar]"]
  by (simp add: negFoo_def posBar_def truthy_def)

lemma findIndex_None_iff: "findIndex P xs = None \<longleftrightarrow> (\<forall>x\<in>set xs. \<not> P x)"
  by (induction xs) (auto split: option.splits)

lemma findIndex_append_last:
  "findIndex P xs = None \<Longrightarrow> P x \<Longrightarrow> findIndex P (xs @ [x]) = Some (length xs)"
  by (induction xs) (auto split: option.splits if_splits)

lemma findIndex_append_Some:
  "findIndex P xs = Some i \<Longrightarrow> findIndex P (xs @ ys) = Some i"
  by (induction xs arbitrary: i) (auto split: option.splits if_splits)

lemma findIndex_Some_exists: "P x \<Longrightarrow> x \<in> set xs \<Longrightarrow> \<exists>i. findIndex P xs = Some i"
  using findIndex_None_iff [of P xs] by (cases "findIndex P xs") auto

lemma splice1_last: "splice1 (length xs) (xs @ [x]) = xs"
  by (simp add: splice1_def)

lemma restoreKeybinding_eq:
  "restoreKeybinding key command when keybindings =
     (case findIndex (negationMatches key command when) keybindings of
        None \<Rightarrow> (False, keybindings)
      | Some index \<Rightarrow> (True, splice1 index keybindings))"
  by (simp add: restoreKeybinding_def negationMatches_def [abs_def] Let_def)






lemma restoreKeybinding_no_match:
  assumes "\<forall>kb\<in>set keybindings. \<not> negationMatches key command when kb"
  shows "restoreKeybinding key command when keybindings = (False, keybindings)"
  using assms findIndex_None_iff [of "negationMatches key command when" keybindings]
  by (simp add: restoreKeybinding_eq)




subsection \<open>Snapshot manager\<close>

lemma filter_singletonD: "filter P xs = [b] \<Longrightarrow> b \<in> set xs \<and> P b"
proof -
  assume "filter P xs = [b]"
  then have "b \<in> set (filter P xs)" by simp
  then show ?thesis by simp
qed

lemma filter_take_all: "\<forall>y\<in>set ys. Q y \<Longrightarrow> filter Q (take n ys) = take n ys"
proof (rule filter_True)
  assume a: "\<forall>y\<in>set ys. Q y"
  show "\<forall>x\<in>set (take n ys). Q x"
  proof
    fix x assume "x \<in> set (take n ys)"
    then have "x \<in> set ys" by (rule in_set_takeD)
    with a show "Q x" by blast
  qed
qed

lemma filter_take_none: "\<forall>y\<in>set ys. \<not> Q y \<Longrightarrow> filter Q (take n ys) = []"
proof (rule filter_False)
  assume a: "\<forall>y\<in>set ys. \<not> Q y"
  show "\<forall>x\<in>set (take n ys). \<not> Q x"
  proof
    fix x assume "x \<in> set (take n ys)"
    then have "x \<in> set ys" by (rule in_set_takeD)
    with a show "\<not> Q x" by blast
  qed
qed

lemma take_nonmatching_append:
  assumes b: "P b" and s: "\<not> P s"
  shows "filter P (take n (s # filter (\<lambda>x. \<not> P x) xs) @ [b]) = [b]"
    and "length (filter (\<lambda>x. \<not> P x) (take n (s # filter (\<lambda>x. \<not> P x) xs) @ [b])) =
           min n (Suc (length (filter (\<lambda>x. \<not> P x) xs)))"
proof -
  let ?ys = "s # filter (\<lambda>x. \<not> P x) xs"
  have nbs: "\<forall>x\<in>set ?ys. \<not> P x"
    using s by simp
  have none: "filter P (take n ?ys) = []"
    using nbs by (rule filter_take_none)
  have all: "filter (\<lambda>x. \<not> P x) (take n ?ys) = take n ?ys"
    using nbs by (rule filter_take_all)
  show "filter P (take n ?ys @ [b]) = [b]"
    using none b by simp
  show "length (filter (\<lambda>x. \<not> P x) (take n ?ys @ [b])) =
           min n (Suc (length (filter (\<lambda>x. \<not> P x) xs)))"
    using all b by (simp add: min_def)
qed

lemma findIndex_Some_splice:
  "findIndex P xs = Some i \<Longrightarrow> filter P xs = [b] \<Longrightarrow>
     xs ! i = b \<and> splice1 i xs = filter (\<lambda>x. \<not> P x) xs"
proof (induction xs arbitrary: i)
  case Nil
  then show ?case by simp
next
  case (Cons x xs)
  show ?case
  proof (cases "P x")
    case True
    with Cons.prems have i: "i = 0" and b: "x = b" and none: "filter P xs = []"
      by simp_all
    from none have "filter (\<lambda>x. \<not> P x) xs = xs"
      by (simp add: filter_empty_conv filter_id_conv)
    with True i b show ?thesis by (simp add: splice1_def)
  next
    case False
    with Cons.prems obtain j where j: "findIndex P xs = Some j" and i: "i = Suc j"
      by (auto split: option.splits)
    from False Cons.prems have "filter P xs = [b]" by simp
    from Cons.IH [OF j this] False i show ?thesis by (simp add: splice1_def)
  qed
qed

text \<open>A read of the store leaves it sorted, with the same snapshots.\<close>

lemma getSnapshots_store:
  "snapshotStore (snd (getSnapshots h)) = sort_key (\<lambda>s. - createdAt_s s) (snapshotStore h)"
  "fst (getSnapshots h) = sort_key (\<lambda>s. - createdAt_s s) (snapshotStore h)"
  "set (snapshotStore (snd (getSnapshots h))) = set (snapshotStore h)"
  "length (snapshotStore (snd (getSnapshots h))) = length (snapshotStore h)"
  by (simp_all add: getSnapshots_def Let_def)

lemma saveSnapshot_store:
  "snapshotStore (saveSnapshot s h) =
     (case findIndex isBase (fst (getSnapshots h)) of
        None \<Rightarrow> take 10 (s # fst (getSnapshots h))
      | Some i \<Rightarrow> take 9 (s # splice1 i (fst (getSnapshots h))) @ [fst (getSnapshots h) ! i])"
  by (simp add: saveSnapshot_def getSnapshots_def MAX_SNAPSHOTS_def Let_def split: option.splits)

lemma length_saveSnapshot: "length (snapshotStore (saveSnapshot s h)) \<le> 10"
  by (simp add: saveSnapshot_store split: option.splits)

lemma filter_getSnapshots:
  "filter P (fst (getSnapshots h)) = sort_key (\<lambda>s. - createdAt_s s) (filter P (snapshotStore h))"
  by (simp add: getSnapshots_def Let_def filter_sort)

lemma saveSnapshot_with_base:
  assumes base: "filter isBase (snapshotStore h) = [b]" and s: "\<not> isBase s"
  shows "snapshotStore (saveSnapshot s h) =
           take 9 (s # filter (\<lambda>x. \<not> isBase x) (fst (getSnapshots h))) @ [b]"
proof -
  have fb: "filter isBase (fst (getSnapshots h)) = [b]"
    by (simp add: filter_getSnapshots base)
  then have "b \<in> set (fst (getSnapshots h))" "isBase b"
    using filter_singletonD [of isBase "fst (getSnapshots h)" b] by simp_all
  then obtain i where i: "findIndex isBase (fst (getSnapshots h)) = Some i"
    using findIndex_Some_exists [of isBase b "fst (getSnapshots h)"] by blast
  from findIndex_Some_splice [OF i fb] i show ?thesis
    by (simp add: saveSnapshot_store)
qed

lemma saveSnapshot_counts:
  assumes base: "filter isBase (snapshotStore h) = [b]" and s: "\<not> isBase s"
  shows "filter isBase (snapshotStore (saveSnapshot s h)) = [b]"
    and "length (filter (\<lambda>x. \<not> isBase x) (snapshotStore (saveSnapshot s h))) =
           min 9 (Suc (length (filter (\<lambda>x. \<not> isBase x) (snapshotStore h))))"
proof -
  have st: "snapshotStore (saveSnapshot s h) =
              take 9 (s # filter (\<lambda>x. \<not> isBase x) (fst (getSnapshots h))) @ [b]"
    by (rule saveSnapshot_with_base [OF base s])
  have b: "isBase b"
    using filter_singletonD [OF base] by (rule conjunct2)
  have len: "length (filter (\<lambda>x. \<not> isBase x) (fst (getSnapshots h))) =
             length (filter (\<lambda>x. \<not> isBase x) (snapshotStore h))"
    unfolding filter_getSnapshots by (rule length_sort)
  show "filter isBase (snapshotStore (saveSnapshot s h)) = [b]"
    unfolding st by (rule take_nonmatching_append(1) [of isBase, OF b s])
  show "length (filter (\<lambda>x. \<not> isBase x) (snapshotStore (saveSnapshot s h))) =
           min 9 (Suc (length (filter (\<lambda>x. \<not> isBase x) (snapshotStore h))))"
    unfolding st len [symmetric] by (rule take_nonmatching_append(2) [of isBase, OF b s])
qed

lemma createSnapshots_counts:
  assumes "filter isBase (snapshotStore h) = [b]"
    and "\<forall>c\<in>set calls. fst c \<noteq> ''Base Snapshot''"
  shows "filter isBase (snapshotStore (createSnapshots calls h)) = [b]
         \<and> length (filter (\<lambda>x. \<not> isBase x) (snapshotStore (createSnapshots calls h))) =
             (if calls = [] then length (filter (\<lambda>x. \<not> isBase x) (snapshotStore h))
              else min 9 (length (filter (\<lambda>x. \<not> isBase x) (snapshotStore h)) + length calls))"
  using assms
proof (induction calls arbitrary: h)
  case Nil
  then show ?case by simp
next
  case (Cons c calls)
  obtain name gs newId now where c: "c = (name, gs, newId, now)"
    by (cases c) auto
  let ?s = "\<lparr>id_s = newId, name_s = name, createdAt_s = now,
             keybindingsContent_s = readRaw h, governanceState_s = gs\<rparr>"
  let ?h = "saveSnapshot ?s h"
  have step: "createSnapshots (c # calls) h = createSnapshots calls ?h"
    by (simp add: c createSnapshot_def Let_def)
  from Cons.prems c have nb: "\<not> isBase ?s" by simp
  note cnt = saveSnapshot_counts [OF Cons.prems(1) nb]
  from Cons.prems have rest: "\<forall>c\<in>set calls. fst c \<noteq> ''Base Snapshot''" by simp
  from Cons.IH [OF cnt(1) rest] cnt(2) show ?case
    unfolding step by (auto simp: min_def)
qed

text \<open>
  Claim C1, as the code has it. The bound of \<^verbatim>\<open>MAX_SNAPSHOTS = 10\<close> counts the Base
  snapshot in: every save leaves at most 10 snapshots in all. In a store whose only
  snapshot named \<^verbatim>\<open>Base Snapshot\<close> is \<open>b\<close>, after any run of creations under other names it
  is still the only one, and the other snapshots number the smaller of 9 and their
  number before plus the number of creations; so the store holds at most 9 of them and
  the Base snapshot, which is never evicted.
\<close>

theorem snapshot_bound:
  assumes "filter isBase (snapshotStore h) = [b]"
    and "\<forall>c\<in>set calls. fst c \<noteq> ''Base Snapshot''"
    and "calls \<noteq> []"
  shows "length (snapshotStore (saveSnapshot s h')) \<le> MAX_SNAPSHOTS
         \<and> filter isBase (snapshotStore (createSnapshots calls h)) = [b]
         \<and> b \<in> set (snapshotStore (createSnapshots calls h))
         \<and> length (filter (\<lambda>x. \<not> isBase x) (snapshotStore (createSnapshots calls h))) =
             min 9 (length (filter (\<lambda>x. \<not> isBase x) (snapshotStore h)) + length calls)
         \<and> length (snapshotStore (createSnapshots calls h)) =
             min 9 (length (filter (\<lambda>x. \<not> isBase x) (snapshotStore h)) + length calls) + 1"
proof -
  let ?st = "snapshotStore (createSnapshots calls h)"
  from createSnapshots_counts [OF assms(1,2)] assms(3)
  have fb: "filter isBase ?st = [b]"
    and nb: "length (filter (\<lambda>x. \<not> isBase x) ?st) =
             min 9 (length (filter (\<lambda>x. \<not> isBase x) (snapshotStore h)) + length calls)"
    by simp_all
  have mem: "b \<in> set ?st"
    using filter_singletonD [OF fb] by simp
  have "length ?st = length (filter isBase ?st) + length (filter (\<lambda>x. \<not> isBase x) ?st)"
    by (rule sum_length_filter_compl [symmetric])
  with fb nb have len: "length ?st =
      min 9 (length (filter (\<lambda>x. \<not> isBase x) (snapshotStore h)) + length calls) + 1"
    by simp
  have "length (snapshotStore (saveSnapshot s h')) \<le> MAX_SNAPSHOTS"
    by (simp add: MAX_SNAPSHOTS_def length_saveSnapshot)
  with fb mem nb len show ?thesis by blast
qed

lemma twelveCalls_names: "\<forall>c\<in>set twelveCalls. fst c \<noteq> ''Base Snapshot''"
  by (simp add: twelveCalls_def call_def)

lemma host0_base: "filter isBase (snapshotStore host0) = [baseSnap]"
  by (simp add: host0_def baseSnap_def)

lemma host0_nonBase: "filter (\<lambda>x. \<not> isBase x) (snapshotStore host0) = []"
  by (simp add: host0_def baseSnap_def)

theorem snapshot_bound_witness:
  "filter isBase (snapshotStore (createSnapshots twelveCalls host0)) = [baseSnap]
   \<and> baseSnap \<in> set (snapshotStore (createSnapshots twelveCalls host0))
   \<and> length (filter (\<lambda>x. \<not> isBase x) (snapshotStore (createSnapshots twelveCalls host0))) = 9
   \<and> length (snapshotStore (createSnapshots twelveCalls host0)) = 10"
proof -
  have ne: "twelveCalls \<noteq> []" and len: "length twelveCalls = 12"
    by (simp_all add: twelveCalls_def)
  from snapshot_bound [OF host0_base twelveCalls_names ne] show ?thesis
    by (simp add: host0_nonBase len)
qed

text \<open>
  Claim C1 fails as stated: after twelve named snapshots created in a store that holds
  the Base snapshot, 9 snapshots other than Base and the Base snapshot remain, 10 in all,
  not 10 and 11.
\<close>

theorem snapshot_bound_counterexample:
  "length (filter (\<lambda>x. \<not> isBase x) (snapshotStore (createSnapshots twelveCalls host0))) = 9
   \<and> length (snapshotStore (createSnapshots twelveCalls host0)) = 10
   \<and> length twelveCalls = 12
   \<and> snapshotStore host0 = [baseSnap]"
proof -
  let ?st = "snapshotStore (createSnapshots twelveCalls host0)"
  have len: "length twelveCalls = 12"
    by (simp add: twelveCalls_def)
  from createSnapshots_counts [OF host0_base twelveCalls_names]
  have fb: "filter isBase ?st = [baseSnap]"
    and nb: "length (filter (\<lambda>x. \<not> isBase x) ?st) = 9"
    by (simp_all add: host0_nonBase len twelveCalls_def)
  have "length ?st = length (filter isBase ?st) + length (filter (\<lambda>x. \<not> isBase x) ?st)"
    by (rule sum_length_filter_compl [symmetric])
  with fb nb len show ?thesis by (simp add: host0_def)
qed

subsection \<open>JSON text: every call of the parser shortens the text\<close>

lemma parse_string_body_shorter:
  "parse_string_body acc cs = Some (s, r) \<Longrightarrow> length r < length cs"
proof (induction "length cs" arbitrary: acc cs rule: less_induct)
  case less
  from less.prems show ?case
    by (cases cs) (fastforce split: if_splits list.splits option.splits dest: less.hyps [rotated])+
qed

lemma length_dropWhile_takeWhile:
  "takeWhile P cs \<noteq> [] \<Longrightarrow> length (dropWhile P cs) < length cs"
  by (induction cs) (auto simp: less_Suc_eq_le length_dropWhile_le split: if_splits)

lemma number_int_shorter: "number_int cs = Some (ds, r) \<Longrightarrow> length r < length cs"
  by (auto simp: number_int_def Let_def length_dropWhile_takeWhile split: if_splits)

lemma number_frac_shorter: "number_frac cs = Some (ds, r) \<Longrightarrow> length r \<le> length cs"
  by (auto simp: number_frac_def Let_def split: if_splits list.splits
      intro: le_SucI length_dropWhile_le)

lemma number_exp_shorter: "number_exp cs = Some (ds, r) \<Longrightarrow> length r \<le> length cs"
  by (auto simp: number_exp_def Let_def split: if_splits list.splits
      intro: le_SucI length_dropWhile_le order_trans [OF length_dropWhile_le])

lemma parse_number_shorter: "parse_number cs = Some (lit, r) \<Longrightarrow> length r < length cs"
  by (auto simp: parse_number_def Let_def split: if_splits list.splits option.splits prod.splits
      dest!: number_int_shorter number_frac_shorter number_exp_shorter)


lemma skip_ws_Cons_shorter: "skip_ws cs = d # r \<Longrightarrow> length r < length cs"
  using length_skip_ws [of cs] by simp

lemma parse_shorter:
  "parse_value cs = Some (v, r) \<Longrightarrow> length r < length cs"
  "parse_elements acc cs = Some (v, r) \<Longrightarrow> length r < length cs"
  "parse_members macc cs' = Some (v, r) \<Longrightarrow> length r < length cs'"
proof (induction cs and acc cs and macc cs' arbitrary: v r and v r and v r
       rule: parse_value_parse_elements_parse_members.induct)
  case (1 cs)
  from "1.prems" obtain c t where cs: "cs = c # t"
    by (cases cs) (simp_all add: parse_value.simps)
  note p = "1.prems" [unfolded cs parse_value.simps [of "c # t"] list.case]
  consider (arr) "c = CHR ''[''" | (obj) "c \<noteq> CHR ''[''" "c = CHR ''{''"
    | (other) "c \<noteq> CHR ''[''" "c \<noteq> CHR ''{''"
    by blast
  then show ?case
  proof cases
    case arr
    with p obtain d r' where sk: "skip_ws t = d # r'"
      by (cases "skip_ws t") simp_all
    show ?thesis
    proof (cases "d = CHR '']''")
      case True
      with p arr sk have "r = r'" by simp
      with skip_ws_Cons_shorter [OF sk] cs show ?thesis by simp
    next
      case False
      with p arr sk have "parse_elements [] t = Some (v, r)" by simp
      from "1.IH"(1) [OF cs arr sk False this] cs show ?thesis by simp
    qed
  next
    case obj
    with p obtain d r' where sk: "skip_ws t = d # r'"
      by (cases "skip_ws t") simp_all
    show ?thesis
    proof (cases "d = CHR ''}''")
      case True
      with p obj sk have "r = r'" by simp
      with skip_ws_Cons_shorter [OF sk] cs show ?thesis by simp
    next
      case False
      with p obj sk have "parse_members [] t = Some (v, r)" by simp
      from "1.IH"(2) [OF cs obj sk False this] cs show ?thesis by simp
    qed
  next
    case other
    with p cs show ?thesis
      by (auto split: if_splits option.splits
          dest!: parse_string_body_shorter parse_number_shorter)
  qed
next
  case (2 acc cs)
  note p = "2.prems" [unfolded parse_elements.simps [of acc cs]]
  from p obtain v1 r1 where pv: "parse_value (skip_ws cs) = Some (v1, r1)"
    by (cases "parse_value (skip_ws cs)") auto
  from p pv obtain d r' where sk: "skip_ws r1 = d # r'"
    by (cases "skip_ws r1") simp_all
  have "length r1 < length (skip_ws cs)"
    by (rule "2.IH"(1) [OF pv])
  with length_skip_ws [of cs] skip_ws_Cons_shorter [OF sk]
  have r': "length r' < length cs" by simp
  show ?case
  proof (cases "d = CHR '',''")
    case True
    with p pv sk r' have "parse_elements (acc @ [v1]) r' = Some (v, r)" by simp
    from "2.IH"(2) [OF pv refl sk True r' this] r' show ?thesis by simp
  next
    case False
    with p pv sk have "r = r'" by (simp split: if_splits)
    with r' show ?thesis by simp
  qed
next
  case (3 macc cs)
  note p = "3.prems" [unfolded parse_members.simps [of macc cs]]
  from p obtain q r0 where s0: "skip_ws cs = q # r0"
    by (cases "skip_ws cs") simp_all
  from p s0 have q: "q = dq" by (simp split: if_splits)
  from p s0 q obtain k r1 where ps: "parse_string_body [] r0 = Some (k, r1)"
    by (cases "parse_string_body [] r0") auto
  from p s0 q ps obtain col r2 where s1: "skip_ws r1 = col # r2"
    by (cases "skip_ws r1") simp_all
  from p s0 q ps s1 have col: "col = CHR '':''" and g: "length r2 < length cs"
    by (simp_all split: if_splits)
  from p s0 q ps s1 col g obtain v3 r3 where pv: "parse_value (skip_ws r2) = Some (v3, r3)"
    by (cases "parse_value (skip_ws r2)") auto
  from p s0 q ps s1 col g pv obtain d r4 where s3: "skip_ws r3 = d # r4"
    by (cases "skip_ws r3") simp_all
  have c1: "\<not> (col \<noteq> CHR '':'' \<or> \<not> length r2 < length cs)"
    using col g by simp
  have "length r3 < length (skip_ws r2)"
    by (rule "3.IH"(1) [OF s0 _ ps refl s1 c1 pv]) (simp add: q)
  with length_skip_ws [of r2] skip_ws_Cons_shorter [OF s3] g
  have r4: "length r4 < length cs" by simp
  show ?case
  proof (cases "d = CHR '',''")
    case True
    with p s0 q ps s1 col g pv s3 r4 have "parse_members (obj_put k v3 macc) r4 = Some (v, r)"
      by simp
    from "3.IH"(2) [OF s0 _ ps refl s1 c1 pv refl s3 True r4 this] r4 q
    show ?thesis by simp
  next
    case False
    with p s0 q ps s1 col g pv s3 have "r = r4" by (simp split: if_splits)
    with r4 show ?thesis by simp
  qed
qed


lemma parse_elements_unguarded:
  "parse_elements acc cs =
     (case parse_value (skip_ws cs) of
        None \<Rightarrow> None
      | Some (v, r) \<Rightarrow>
          (case skip_ws r of
             [] \<Rightarrow> None
           | d # r' \<Rightarrow>
               if d = CHR '','' then parse_elements (acc @ [v]) r'
               else if d = CHR '']'' then Some (JArray (acc @ [v]), r')
               else None))"
proof (cases "parse_value (skip_ws cs)")
  case None
  then show ?thesis by (subst parse_elements.simps) simp
next
  case (Some a)
  obtain v r where a: "a = (v, r)" by (cases a)
  show ?thesis
  proof (cases "skip_ws r")
    case Nil
    with Some a show ?thesis by (subst parse_elements.simps) simp
  next
    case (Cons d r')
    have "length r < length (skip_ws cs)"
      using Some a by (auto dest: parse_shorter(1))
    with length_skip_ws [of cs] skip_ws_Cons_shorter [OF Cons]
    have "length r' < length cs" by simp
    with Some a Cons show ?thesis by (subst parse_elements.simps) simp
  qed
qed

lemma parse_members_unguarded:
  "parse_members acc cs =
     (case skip_ws cs of
        [] \<Rightarrow> None
      | q # r0 \<Rightarrow>
          if q \<noteq> dq then None
          else (case parse_string_body [] r0 of
                  None \<Rightarrow> None
                | Some (k, r1) \<Rightarrow>
                    (case skip_ws r1 of
                       [] \<Rightarrow> None
                     | col # r2 \<Rightarrow>
                         if col \<noteq> CHR '':'' then None
                         else (case parse_value (skip_ws r2) of
                                 None \<Rightarrow> None
                               | Some (v, r3) \<Rightarrow>
                                   (case skip_ws r3 of
                                      [] \<Rightarrow> None
                                    | d # r4 \<Rightarrow>
                                        if d = CHR '','' then parse_members (obj_put k v acc) r4
                                        else if d = CHR ''}'' then Some (JObject (obj_put k v acc), r4)
                                        else None)))))"
proof -
  have g2: "length r2 < length cs"
    if "skip_ws cs = q # r0" "parse_string_body [] r0 = Some (k, r1)" "skip_ws r1 = col # r2"
    for q r0 k r1 col r2
    using skip_ws_Cons_shorter [OF that(1)] parse_string_body_shorter [OF that(2)]
      skip_ws_Cons_shorter [OF that(3)] by simp
  have g4: "length r4 < length cs"
    if "skip_ws cs = q # r0" "parse_string_body [] r0 = Some (k, r1)" "skip_ws r1 = col # r2"
      "parse_value (skip_ws r2) = Some (v, r3)" "skip_ws r3 = d # r4"
    for q r0 k r1 col r2 v r3 d r4
    using g2 [OF that(1,2,3)] parse_shorter(1) [OF that(4)] length_skip_ws [of r2]
      skip_ws_Cons_shorter [OF that(5)] by simp
  show ?thesis
    by (subst parse_members.simps)
      (auto split: list.splits option.splits simp: g2 g4)
qed

subsection \<open>Restoring a snapshot\<close>

lemmas json_eval =
  JSON_parse_def parse_value.simps parse_elements.simps parse_members.simps skip_ws_def
  is_json_ws_def parse_number_def number_int_def number_frac_def number_exp_def is_digit_def
  obj_put_def isArrayIndex_def digits_value_def hex4_def hexval_def unescape_def
  arrayOrEmpty_def JSON_stringify_def quote_def quote_char_def

lemma write_with_JSON_stringify:
  "write_with (\<lambda>keybindings. JSON_stringify (JArray keybindings)) keybindings h =
     write_file keybindings h"
  by (simp add: write_with_def write_file_def)

lemma getSnapshots_frame:
  "keybindingsFile (snd (getSnapshots h)) = keybindingsFile h"
  "governance (snd (getSnapshots h)) = governance h"
  "set (fst (getSnapshots h)) = set (snapshotStore h)"
  by (simp_all add: getSnapshots_def Let_def)

lemma find_None_iff_ids:
  "find (\<lambda>s. id_s s = snapshotId) xs = None \<longleftrightarrow> snapshotId \<notin> id_s ` set xs"
  by (auto simp: find_None_iff)

lemma fst_getSnapshot:
  "fst (getSnapshot snapshotId h) = find (\<lambda>s. id_s s = snapshotId) (fst (getSnapshots h))"
  by (simp add: getSnapshot_def case_prod_beta)

lemma getSnapshots_host1: "fst (getSnapshots host1) = [snapOneLine, baseSnap]"
  by (simp add: getSnapshots_def host1_def snapOneLine_def baseSnap_def Let_def)

lemma getSnapshot_host1: "fst (getSnapshot ''snapshot-1-a1b2c3'' host1) = Some snapOneLine"
proof -
  have "find (\<lambda>s. id_s s = ''snapshot-1-a1b2c3'') [snapOneLine, baseSnap] = Some snapOneLine"
    by (simp add: snapOneLine_def)
  then show ?thesis
    using getSnapshots_host1 by (simp add: fst_getSnapshot)
qed

lemma parse_snapOneLine:
  "JSON_parse (keybindingsContent_s snapOneLine) =
     Some (JArray [JObject [(''key'', JString ''ctrl+k''), (''command'', JString ''-foo'')]])"
  by (simp add: snapOneLine_def json_eval)

lemma stringify_snapOneLine:
  \<open>JSON_stringify (JArray [JObject [(''key'', JString ''ctrl+k''), (''command'', JString ''-foo'')]]) =
     ''['' @ [nl] @
     ''  {'' @ [nl] @
     ''    "key": "ctrl+k",'' @ [nl] @
     ''    "command": "-foo"'' @ [nl] @
     ''  }'' @ [nl] @
     '']''\<close>
  by (simp add: json_eval)

text \<open>
  Claim C2, as the code has it, for whatever \<^verbatim>\<open>JSON.parse\<close>, \<^verbatim>\<open>Array.isArray\<close> and
  \<^verbatim>\<open>JSON.stringify\<close> compute. Restoring an id that no stored snapshot has returns
  \<^verbatim>\<open>undefined\<close> and leaves the configuration file and the governance store as they were.
  Restoring an id whose snapshot (the one \<^verbatim>\<open>getSnapshot\<close> finds) holds content that
  \<^verbatim>\<open>JSON.parse\<close> accepts returns the stored governance state, leaves the governance store as
  it was, and makes the file \<^verbatim>\<open>JSON.stringify(keybindings, null, 2)\<close> of the parsed array (of
  the empty array when the parsed value is no array): the serialisation of the parsed
  value, not the stored text.
\<close>

theorem restoreSnapshot_effect:
  "(snapshotId \<notin> id_s ` set (snapshotStore h) \<longrightarrow>
      fst (restoreSnapshot_with parse asArray stringify snapshotId h) = Inr None
      \<and> keybindingsFile (snd (restoreSnapshot_with parse asArray stringify snapshotId h)) =
          keybindingsFile h
      \<and> governance (snd (restoreSnapshot_with parse asArray stringify snapshotId h)) =
          governance h)
   \<and> (fst (getSnapshot snapshotId h) = Some snapshot
        \<and> parse (keybindingsContent_s snapshot) = Some parsed \<longrightarrow>
      fst (restoreSnapshot_with parse asArray stringify snapshotId h) =
          Inr (Some (governanceState_s snapshot))
      \<and> keybindingsFile (snd (restoreSnapshot_with parse asArray stringify snapshotId h)) =
          Some (stringify (asArray parsed))
      \<and> governance (snd (restoreSnapshot_with parse asArray stringify snapshotId h)) =
          governance h)"
proof (intro conjI impI)
  assume "snapshotId \<notin> id_s ` set (snapshotStore h)"
  then have n: "find (\<lambda>s. id_s s = snapshotId) (fst (getSnapshots h)) = None"
    by (simp add: find_None_iff_ids getSnapshots_frame)
  from n show "fst (restoreSnapshot_with parse asArray stringify snapshotId h) = Inr None"
    by (simp add: restoreSnapshot_with_def case_prod_beta)
  from n show "keybindingsFile (snd (restoreSnapshot_with parse asArray stringify snapshotId h)) =
          keybindingsFile h"
    using getSnapshots_frame(1) [of h] by (simp add: restoreSnapshot_with_def case_prod_beta)
  from n show "governance (snd (restoreSnapshot_with parse asArray stringify snapshotId h)) =
          governance h"
    using getSnapshots_frame(2) [of h] by (simp add: restoreSnapshot_with_def case_prod_beta)
next
  assume "fst (getSnapshot snapshotId h) = Some snapshot
        \<and> parse (keybindingsContent_s snapshot) = Some parsed"
  then have f: "find (\<lambda>s. id_s s = snapshotId) (fst (getSnapshots h)) = Some snapshot"
    and p: "parse (keybindingsContent_s snapshot) = Some parsed"
    by (simp_all add: fst_getSnapshot)
  from f p show "fst (restoreSnapshot_with parse asArray stringify snapshotId h) =
          Inr (Some (governanceState_s snapshot))"
    by (simp add: restoreSnapshot_with_def case_prod_beta)
  from f p show "keybindingsFile (snd (restoreSnapshot_with parse asArray stringify snapshotId h)) =
          Some (stringify (asArray parsed))"
    by (simp add: restoreSnapshot_with_def write_with_def case_prod_beta)
  from f p show "governance (snd (restoreSnapshot_with parse asArray stringify snapshotId h)) =
          governance h"
    using getSnapshots_frame(2) [of h]
    by (simp add: restoreSnapshot_with_def write_with_def case_prod_beta)
qed

theorem restoreSnapshot_effect_witness:
  \<open>''snapshot-9-zzzzzz'' \<notin> id_s ` set (snapshotStore host1)
   \<and> fst (restoreSnapshot ''snapshot-9-zzzzzz'' host1) = Inr None
   \<and> keybindingsFile (snd (restoreSnapshot ''snapshot-9-zzzzzz'' host1)) = Some ''[]''
   \<and> fst (getSnapshot ''snapshot-1-a1b2c3'' host1) = Some snapOneLine
   \<and> fst (restoreSnapshot ''snapshot-1-a1b2c3'' host1) = Inr (Some (createEmptyGovernanceState 1))
   \<and> keybindingsFile (snd (restoreSnapshot ''snapshot-1-a1b2c3'' host1)) =
       Some (''['' @ [nl] @
             ''  {'' @ [nl] @
             ''    "key": "ctrl+k",'' @ [nl] @
             ''    "command": "-foo"'' @ [nl] @
             ''  }'' @ [nl] @
             '']'')
   \<and> governance (snd (restoreSnapshot ''snapshot-1-a1b2c3'' host1)) = initialService 0\<close>
proof -
  let ?str = "\<lambda>keybindings. JSON_stringify (JArray keybindings)"
  have a: "''snapshot-9-zzzzzz'' \<notin> id_s ` set (snapshotStore host1)"
    by (simp add: host1_def snapOneLine_def baseSnap_def)
  have g: "governanceState_s snapOneLine = createEmptyGovernanceState 1"
    by (simp add: snapOneLine_def)
  have h: "keybindingsFile host1 = Some ''[]''" "governance host1 = initialService 0"
    by (simp_all add: host1_def)
  from restoreSnapshot_effect [where snapshotId = "''snapshot-9-zzzzzz''" and h = host1
      and parse = JSON_parse and asArray = arrayOrEmpty and stringify = ?str] a
  have 1: "fst (restoreSnapshot ''snapshot-9-zzzzzz'' host1) = Inr None"
    and 2: "keybindingsFile (snd (restoreSnapshot ''snapshot-9-zzzzzz'' host1)) = keybindingsFile host1"
    unfolding restoreSnapshot_def by blast+
  from restoreSnapshot_effect [where snapshotId = "''snapshot-1-a1b2c3''" and h = host1
      and snapshot = snapOneLine and parse = JSON_parse and asArray = arrayOrEmpty
      and stringify = ?str]
    getSnapshot_host1 parse_snapOneLine
  have 3: "fst (restoreSnapshot ''snapshot-1-a1b2c3'' host1) = Inr (Some (governanceState_s snapOneLine))"
    and 4: "keybindingsFile (snd (restoreSnapshot ''snapshot-1-a1b2c3'' host1)) =
        Some (JSON_stringify (JArray (arrayOrEmpty
          (JArray [JObject [(''key'', JString ''ctrl+k''), (''command'', JString ''-foo'')]]))))"
    and 5: "governance (snd (restoreSnapshot ''snapshot-1-a1b2c3'' host1)) = governance host1"
    unfolding restoreSnapshot_def by blast+
  have s: "arrayOrEmpty (JArray [JObject [(''key'', JString ''ctrl+k''), (''command'', JString ''-foo'')]]) =
        [JObject [(''key'', JString ''ctrl+k''), (''command'', JString ''-foo'')]]"
    by (simp add: arrayOrEmpty_def)
  show ?thesis
    using a 1 2 3 4 5 getSnapshot_host1 unfolding s stringify_snapOneLine g h by blast
qed

text \<open>
  Claim C2 fails as stated: the file written on restore is the serialisation of the
  parsed content, here six lines, and not the single line the snapshot holds.
\<close>

theorem restoreSnapshot_not_verbatim_counterexample:
  \<open>fst (getSnapshot ''snapshot-1-a1b2c3'' host1) = Some snapOneLine
   \<and> keybindingsContent_s snapOneLine = ''[{"key":"ctrl+k","command":"-foo"}]''
   \<and> keybindingsFile (snd (restoreSnapshot ''snapshot-1-a1b2c3'' host1)) =
       Some (''['' @ [nl] @
             ''  {'' @ [nl] @
             ''    "key": "ctrl+k",'' @ [nl] @
             ''    "command": "-foo"'' @ [nl] @
             ''  }'' @ [nl] @
             '']'')
   \<and> keybindingsFile (snd (restoreSnapshot ''snapshot-1-a1b2c3'' host1)) \<noteq>
       Some (keybindingsContent_s snapOneLine)\<close>
proof -
  have b: "find (\<lambda>s. id_s s = ''snapshot-1-a1b2c3'') (fst (getSnapshots host1)) = Some snapOneLine"
    by (simp add: getSnapshots_host1) (simp add: snapOneLine_def)
  have s: "arrayOrEmpty (JArray [JObject [(''key'', JString ''ctrl+k''), (''command'', JString ''-foo'')]]) =
        [JObject [(''key'', JString ''ctrl+k''), (''command'', JString ''-foo'')]]"
    by (simp add: arrayOrEmpty_def)
  have r: "keybindingsFile (snd (restoreSnapshot ''snapshot-1-a1b2c3'' host1)) =
        Some (JSON_stringify (JArray [JObject [(''key'', JString ''ctrl+k''), (''command'', JString ''-foo'')]]))"
    using b by (simp add: restoreSnapshot_def restoreSnapshot_with_def parse_snapOneLine
                  write_with_def s case_prod_beta)
  have c: \<open>keybindingsContent_s snapOneLine = ''[{"key":"ctrl+k","command":"-foo"}]''\<close>
    by (simp add: snapOneLine_def)
  show ?thesis
    using getSnapshot_host1 by (simp add: r c stringify_snapOneLine)
qed

subsection \<open>Reading the configuration file\<close>

text \<open>On a text without a backslash \<^verbatim>\<open>stripJsonComments\<close> strips exactly the comments
  of the reference reading: the two differ on escapes inside string literals only.\<close>

lemma charAt_next:
  "charAt content (int i + 1) = (if Suc i < length content then Some (content ! Suc i) else None)"
  by (auto simp: charAt_def nat_add_distrib)

lemma charAt_prev_no_backslash:
  "bsl \<notin> set content \<Longrightarrow> charAt content (int i - 1) \<noteq> Some bsl"
proof
  assume nb: "bsl \<notin> set content" and "charAt content (int i - 1) = Some bsl"
  then have "nat (int i - 1) < length content" and "content ! nat (int i - 1) = bsl"
    by (auto simp: charAt_def split: if_splits)
  then have "bsl \<in> set content" by (metis nth_mem)
  with nb show False by simp
qed

lemma drop_two:
  "Suc i < length content \<Longrightarrow>
     drop i content = content ! i # content ! Suc i # drop (i + 2) content"
  by (simp add: Cons_nth_drop_Suc)

lemma drop_last_one:
  "i < length content \<Longrightarrow> \<not> Suc i < length content \<Longrightarrow> drop i content = [content ! i]"
  by (metis Cons_nth_drop_Suc drop_all not_less)

lemma stripJsonComments_loop_reference:
  assumes "bsl \<notin> set content" and "i \<le> length content"
    and "\<not> (s \<and> l)" and "\<not> (s \<and> b)" and "\<not> (l \<and> b)"
  shows "stripJsonComments_loop content i result s l b =
         result @ stripJsonComments_reference (mode_of s l b) (drop i content)"
  using assms
proof (induction "length content - i" arbitrary: i result s l b rule: less_induct)
  case less
  note nbs = less.prems(1)
  show ?case
  proof (cases "i < length content")
    case False
    with less.prems show ?thesis
      by (subst stripJsonComments_loop.simps) simp
  next
    case True
    have IH: "stripJsonComments_loop content j res s' l' b' =
              res @ stripJsonComments_reference (mode_of s' l' b') (drop j content)"
      if "i < j" "j \<le> length content" "\<not> (s' \<and> l')" "\<not> (s' \<and> b')" "\<not> (l' \<and> b')"
      for j res s' l' b'
    proof (rule less.hyps [OF _ nbs that(2,3,4,5)])
      show "length content - j < length content - i"
        using that(1) True by simp
    qed
    have nb: "content ! i \<noteq> bsl"
      using True nbs by (metis nth_mem)
    note pv = charAt_prev_no_backslash [OF nbs, of i]
    have di: "drop i content = content ! i # drop (Suc i) content"
      using True by (simp add: Cons_nth_drop_Suc)
    from less.prems(3,4,5)
    consider (S) "s" "\<not> l" "\<not> b" | (L) "\<not> s" "l" "\<not> b" | (B) "\<not> s" "\<not> l" "b"
      | (C) "\<not> s" "\<not> l" "\<not> b"
      by blast
    then show ?thesis
    proof cases
      case S
      then show ?thesis
        using True nb pv
        by (subst stripJsonComments_loop.simps) (simp add: Let_def mode_of_def di IH)
    next
      case L
      then show ?thesis
        using True
        by (subst stripJsonComments_loop.simps) (simp add: Let_def mode_of_def di IH)
    next
      case B
      show ?thesis
      proof (cases "Suc i < length content")
        case nx: True
        then have d1: "drop (Suc i) content = content ! Suc i # drop (Suc (Suc i)) content"
          by (simp add: Cons_nth_drop_Suc)
        from B True nx show ?thesis
          by (subst stripJsonComments_loop.simps)
             (simp add: Let_def mode_of_def di d1 charAt_next IH)
      next
        case lst: False
        then have d1: "drop (Suc i) content = []"
          by simp
        from B True lst show ?thesis
          by (subst stripJsonComments_loop.simps)
             (simp add: Let_def mode_of_def di d1 charAt_next IH)
      qed
    next
      case C
      show ?thesis
      proof (cases "Suc i < length content")
        case nx: True
        then have d1: "drop (Suc i) content = content ! Suc i # drop (Suc (Suc i)) content"
          by (simp add: Cons_nth_drop_Suc)
        from C True nx show ?thesis
          by (subst stripJsonComments_loop.simps)
             (simp add: Let_def mode_of_def di d1 charAt_next IH)
      next
        case lst: False
        then have d1: "drop (Suc i) content = []"
          by simp
        from C True lst show ?thesis
          by (subst stripJsonComments_loop.simps)
             (simp add: Let_def mode_of_def di d1 charAt_next IH)
      qed
    qed
  qed
qed

lemma stripJsonComments_reference_agrees:
  "bsl \<notin> set content \<Longrightarrow>
     stripJsonComments content = stripJsonComments_reference InCode content"
  using stripJsonComments_loop_reference [of content 0 False False False "[]"]
  by (simp add: stripJsonComments_def mode_of_def)

lemmas strip_eval = stripJsonComments_def stripJsonComments_loop.simps charAt_def Let_def

text \<open>
  Claim C9 at the input \<open>backslashKeyFile\<close>, a JSON array with one binding on the
  backslash key and a line comment behind it. The quote that ends the key's literal
  follows a backslash, so \<^verbatim>\<open>stripJsonComments\<close> stays inside the string, keeps the comment,
  and \<^verbatim>\<open>parseKeybindings\<close> gives the empty list. Read with the escapes of JSON, the
  comment is outside every string literal: stripped, the text parses to the one binding.
\<close>

theorem parseKeybindings_escaped_backslash:
  \<open>stripJsonComments backslashKeyFile = backslashKeyFile
   \<and> parseKeybindings backslashKeyFile = []
   \<and> stripJsonComments_reference InCode backslashKeyFile =
       ''[{"key":"ctrl+'' @ [bsl, bsl] @ ''","command":"x"}] ''
   \<and> JSON_parse (stripJsonComments_reference InCode backslashKeyFile) =
       Some (JArray [JObject [(''key'', JString (''ctrl+'' @ [bsl])), (''command'', JString ''x'')]])\<close>
proof -
  have s: "stripJsonComments backslashKeyFile = backslashKeyFile"
    by (simp add: backslashKeyFile_def strip_eval)
  have p: "JSON_parse backslashKeyFile = None"
    by (simp add: backslashKeyFile_def json_eval)
  have r: \<open>stripJsonComments_reference InCode backslashKeyFile =
       ''[{"key":"ctrl+'' @ [bsl, bsl] @ ''","command":"x"}] ''\<close>
    by (simp add: backslashKeyFile_def)
  have q: \<open>JSON_parse (''[{"key":"ctrl+'' @ [bsl, bsl] @ ''","command":"x"}] '') =
       Some (JArray [JObject [(''key'', JString (''ctrl+'' @ [bsl])), (''command'', JString ''x'')]])\<close>
    by (simp add: json_eval)
  show ?thesis
    by (simp only: s r q parseKeybindings_def p option.case simp_thms)
qed

text \<open>
  The list a method hands to \<^verbatim>\<open>write\<close> is the list the next \<^verbatim>\<open>read\<close> returns for the
  negation entry of \<^verbatim>\<open>foo\<close> on \<^verbatim>\<open>ctrl+k\<close>, and it is not for a binding on the backslash key
  whose command holds \<^verbatim>\<open>//\<close>: in the file written, the quote that ends the key follows a
  backslash, \<^verbatim>\<open>stripJsonComments\<close> takes the rest of the command for a comment, and the
  read gives the empty list.
\<close>

lemma stringify_backslash_key:
  \<open>JSON_stringify (JArray [JObject [(''key'', JString (''ctrl+'' @ [bsl])), (''command'', JString ''-a//b'')]]) =
     ''['' @ [nl] @
     ''  {'' @ [nl] @
     ''    "key": "ctrl+'' @ [bsl, bsl] @ ''",'' @ [nl] @
     ''    "command": "-a//b"'' @ [nl] @
     ''  }'' @ [nl] @
     '']''\<close>
  by (simp add: json_eval)

lemma readRaw_write_file:
  "readRaw (write_file keybindings h) = JSON_stringify (JArray keybindings)"
  by (simp add: readRaw_def write_file_def)

lemma written_file_read_back:
  "read_file (write_file [JObject [(''key'', JString ''ctrl+k''), (''command'', JString ''-foo'')]] host0) =
     [JObject [(''key'', JString ''ctrl+k''), (''command'', JString ''-foo'')]]"
proof -
  let ?t = \<open>''['' @ [nl] @
     ''  {'' @ [nl] @
     ''    "key": "ctrl+k",'' @ [nl] @
     ''    "command": "-foo"'' @ [nl] @
     ''  }'' @ [nl] @
     '']''\<close>
  have s: "stripJsonComments ?t = ?t"
    by (simp add: strip_eval)
  have p: "JSON_parse ?t =
      Some (JArray [JObject [(''key'', JString ''ctrl+k''), (''command'', JString ''-foo'')]])"
    by (simp add: json_eval)
  show ?thesis
    unfolding read_file_def readRaw_write_file stringify_snapOneLine parseKeybindings_def s p
    by (simp add: arrayOrEmpty_def)
qed

lemma written_file_not_read_back:
  "read_file (write_file [JObject [(''key'', JString (''ctrl+'' @ [bsl])), (''command'', JString ''-a//b'')]] host0) = []"
proof -
  let ?t = \<open>''['' @ [nl] @
     ''  {'' @ [nl] @
     ''    "key": "ctrl+'' @ [bsl, bsl] @ ''",'' @ [nl] @
     ''    "command": "-a//b"'' @ [nl] @
     ''  }'' @ [nl] @
     '']''\<close>
  let ?u = \<open>''['' @ [nl] @
     ''  {'' @ [nl] @
     ''    "key": "ctrl+'' @ [bsl, bsl] @ ''",'' @ [nl] @
     ''    "command": "-a'' @ [nl] @
     ''  }'' @ [nl] @
     '']''\<close>
  have s: "stripJsonComments ?t = ?u"
    by (simp add: strip_eval)
  have p: "JSON_parse ?u = None"
    by (simp add: json_eval)
  show ?thesis
    unfolding read_file_def readRaw_write_file stringify_backslash_key parseKeybindings_def s p
    by simp
qed

subsection \<open>Conflict detector\<close>

lemma groupByContext_inner_eq:
  "groupByContext_inner bs i j grp P =
     (grp @ map (nth bs) (filter (\<lambda>k. k \<notin> P \<and> contextsOverlap (when_k (bs ! i)) (when_k (bs ! k)))
                            [j..<length bs]),
      P \<union> {k. j \<le> k \<and> k < length bs \<and> k \<notin> P \<and>
                 contextsOverlap (when_k (bs ! i)) (when_k (bs ! k))})"
proof (induction bs i j grp P rule: groupByContext_inner.induct)
  case (1 bs i j grp P)
  let ?ov = "\<lambda>k. contextsOverlap (when_k (bs ! i)) (when_k (bs ! k))"
  show ?case
  proof (cases "j < length bs")
    case False
    then show ?thesis
      by (subst groupByContext_inner.simps) auto
  next
    case True
    then have upt: "[j..<length bs] = j # [j + 1..<length bs]"
      by (simp add: upt_conv_Cons)
    show ?thesis
    proof (cases "j \<in> P")
      case jP: True
      have "groupByContext_inner bs i j grp P = groupByContext_inner bs i (j + 1) grp P"
        using True jP by (subst groupByContext_inner.simps) simp
      also have "\<dots> = (grp @ map (nth bs) (filter (\<lambda>k. k \<notin> P \<and> ?ov k) [j + 1..<length bs]),
                        P \<union> {k. j + 1 \<le> k \<and> k < length bs \<and> k \<notin> P \<and> ?ov k})"
        using "1.IH"(1) [OF True jP] .
      also have "\<dots> = (grp @ map (nth bs) (filter (\<lambda>k. k \<notin> P \<and> ?ov k) [j..<length bs]),
                        P \<union> {k. j \<le> k \<and> k < length bs \<and> k \<notin> P \<and> ?ov k})"
      proof -
        have "{k. j + 1 \<le> k \<and> k < length bs \<and> k \<notin> P \<and> ?ov k} =
              {k. j \<le> k \<and> k < length bs \<and> k \<notin> P \<and> ?ov k}"
          using jP by (auto simp: Suc_le_eq le_less)
        then show ?thesis using jP by (simp add: upt)
      qed
      finally show ?thesis .
    next
      case jP: False
      show ?thesis
      proof (cases "?ov j")
        case ov: True
        have f: "filter (\<lambda>k. k \<notin> insert j P \<and> ?ov k) [j + 1..<length bs] =
                 filter (\<lambda>k. k \<notin> P \<and> ?ov k) [j + 1..<length bs]"
          by (rule filter_cong) auto
        have s: "insert j P \<union> {k. j + 1 \<le> k \<and> k < length bs \<and> k \<notin> insert j P \<and> ?ov k} =
                 P \<union> {k. j \<le> k \<and> k < length bs \<and> k \<notin> P \<and> ?ov k}"
          using jP ov True by (auto simp: Suc_le_eq le_less)
        have "groupByContext_inner bs i j grp P =
              groupByContext_inner bs i (j + 1) (grp @ [bs ! j]) (insert j P)"
          using True jP ov by (subst groupByContext_inner.simps) simp
        also have "\<dots> = ((grp @ [bs ! j]) @
                            map (nth bs) (filter (\<lambda>k. k \<notin> insert j P \<and> ?ov k) [j + 1..<length bs]),
                          insert j P \<union> {k. j + 1 \<le> k \<and> k < length bs \<and> k \<notin> insert j P \<and> ?ov k})"
          using "1.IH"(2) [OF True jP ov] .
        also have "\<dots> = (grp @ map (nth bs) (filter (\<lambda>k. k \<notin> P \<and> ?ov k) [j..<length bs]),
                          P \<union> {k. j \<le> k \<and> k < length bs \<and> k \<notin> P \<and> ?ov k})"
          unfolding f s using jP ov by (simp add: upt)
        finally show ?thesis .
      next
        case ov: False
        have s: "{k. j + 1 \<le> k \<and> k < length bs \<and> k \<notin> P \<and> ?ov k} =
                 {k. j \<le> k \<and> k < length bs \<and> k \<notin> P \<and> ?ov k}"
          using ov by (auto simp: Suc_le_eq le_less)
        have "groupByContext_inner bs i j grp P = groupByContext_inner bs i (j + 1) grp P"
          using True jP ov by (subst groupByContext_inner.simps) simp
        also have "\<dots> = (grp @ map (nth bs) (filter (\<lambda>k. k \<notin> P \<and> ?ov k) [j + 1..<length bs]),
                          P \<union> {k. j + 1 \<le> k \<and> k < length bs \<and> k \<notin> P \<and> ?ov k})"
          using "1.IH"(3) [OF True jP ov] .
        also have "\<dots> = (grp @ map (nth bs) (filter (\<lambda>k. k \<notin> P \<and> ?ov k) [j..<length bs]),
                          P \<union> {k. j \<le> k \<and> k < length bs \<and> k \<notin> P \<and> ?ov k})"
          unfolding s using ov by (simp add: upt)
        finally show ?thesis .
      qed
    qed
  qed
qed

lemma groupByContext_outer_eq:
  "groupByContext_outer bs i groups P =
     groups @ groupBySeed (map (nth bs) (filter (\<lambda>k. k \<notin> P) [i..<length bs]))"
proof (induction bs i groups P rule: groupByContext_outer.induct)
  case (1 bs i groups P)
  let ?ov = "\<lambda>k. contextsOverlap (when_k (bs ! i)) (when_k (bs ! k))"
  show ?case
  proof (cases "i < length bs")
    case False
    then show ?thesis
      by (subst groupByContext_outer.simps) simp
  next
    case True
    then have upt: "[i..<length bs] = i # [i + 1..<length bs]"
      by (simp add: upt_conv_Cons)
    show ?thesis
    proof (cases "i \<in> P")
      case iP: True
      have "groupByContext_outer bs i groups P = groupByContext_outer bs (i + 1) groups P"
        using True iP by (subst groupByContext_outer.simps) simp
      also have "\<dots> = groups @ groupBySeed (map (nth bs) (filter (\<lambda>k. k \<notin> P) [i + 1..<length bs]))"
        using "1.IH"(1) [OF True iP] .
      finally show ?thesis using iP by (simp add: upt)
    next
      case iP: False
      let ?grp = "[bs ! i] @ map (nth bs) (filter (\<lambda>k. k \<notin> insert i P \<and> ?ov k) [i + 1..<length bs])"
      let ?P' = "insert i P \<union> {k. i + 1 \<le> k \<and> k < length bs \<and> k \<notin> insert i P \<and> ?ov k}"
      have inner: "groupByContext_inner bs i (i + 1) [bs ! i] (insert i P) = (?grp, ?P')"
        by (rule groupByContext_inner_eq)
      have g: "filter (\<lambda>k. k \<notin> insert i P \<and> ?ov k) [i + 1..<length bs] =
               filter (\<lambda>k. k \<notin> P \<and> ?ov k) [i + 1..<length bs]"
        by (rule filter_cong) auto
      have r: "filter (\<lambda>k. k \<notin> ?P') [i + 1..<length bs] =
               filter (\<lambda>k. k \<notin> P \<and> \<not> ?ov k) [i + 1..<length bs]"
        by (rule filter_cong) auto
      have "groupByContext_outer bs i groups P =
            (case groupByContext_inner bs i (i + 1) [bs ! i] (insert i P) of
               (grp, P') \<Rightarrow> groupByContext_outer bs (i + 1) (groups @ [grp]) P')"
        using True iP by (subst groupByContext_outer.simps) (simp only: if_True if_False)
      also have "\<dots> = groupByContext_outer bs (i + 1) (groups @ [?grp]) ?P'"
        unfolding inner by (simp only: prod.case)
      also have "\<dots> = (groups @ [?grp]) @
                        groupBySeed (map (nth bs) (filter (\<lambda>k. k \<notin> ?P') [i + 1..<length bs]))"
        using "1.IH"(2) [OF True iP inner [symmetric]] .
      also have "\<dots> = groups @ groupBySeed (map (nth bs) (filter (\<lambda>k. k \<notin> P) [i..<length bs]))"
        unfolding g r using iP by (simp add: upt filter_map comp_def)
      finally show ?thesis .
    qed
  qed
qed

lemma groupByContext_groupBySeed: "groupByContext bindings = groupBySeed bindings"
  by (simp add: groupByContext_def groupByContext_outer_eq map_nth)

lemma Map_get_map:
  "Map_get (map (\<lambda>k. (k, f k)) ks) k = (if k \<in> set ks then Some (f k) else None)"
  by (induction ks) auto

lemma Map_set_map_absent:
  "k \<notin> set ks \<Longrightarrow> Map_set k v (map (\<lambda>k'. (k', f k')) ks) = map (\<lambda>k'. (k', f k')) ks @ [(k, v)]"
  by (induction ks) auto

lemma Map_set_map_present:
  "k \<in> set ks \<Longrightarrow> distinct ks \<Longrightarrow>
     Map_set k v (map (\<lambda>k'. (k', f k')) ks) = map (\<lambda>k'. (k', if k' = k then v else f k')) ks"
proof (induction ks)
  case Nil
  then show ?case by simp
next
  case (Cons a ks)
  show ?case
  proof (cases "a = k")
    case True
    with Cons.prems have "k \<notin> set ks" by simp
    then have "map (\<lambda>k'. (k', f k')) ks = map (\<lambda>k'. (k', if k' = k then v else f k')) ks"
      by (intro map_cong) auto
    with True show ?thesis by simp
  next
    case False
    with Cons show ?thesis by simp
  qed
qed

lemma firstOccurrences_snoc:
  "firstOccurrences (xs @ [x]) =
     (if x \<in> set xs then firstOccurrences xs else firstOccurrences xs @ [x])"
  by (simp add: firstOccurrences_def)

lemma set_firstOccurrences: "set (firstOccurrences xs) = set xs"
  by (simp add: firstOccurrences_def)

lemma distinct_firstOccurrences: "distinct (firstOccurrences xs)"
  by (simp add: firstOccurrences_def)

lemma bucketsByKey_snoc:
  "bucketsByKey (bs @ [b]) = keyMap_add (bucketsByKey bs) b"
proof -
  let ?nk = "\<lambda>b. normalizeKey (key_k b)"
  let ?k = "?nk b"
  let ?ks = "firstOccurrences (map ?nk bs)"
  let ?f = "\<lambda>k. filter (\<lambda>b. ?nk b = k) bs"
  have bk: "bucketsByKey bs = map (\<lambda>k. (k, ?f k)) ?ks"
    by (simp add: bucketsByKey_def)
  show ?thesis
  proof (cases "?k \<in> set (map ?nk bs)")
    case True
    then have mem: "?k \<in> set ?ks" by (simp add: set_firstOccurrences)
    have "keyMap_add (bucketsByKey bs) b = Map_set ?k (?f ?k @ [b]) (map (\<lambda>k. (k, ?f k)) ?ks)"
      using mem by (simp add: keyMap_add_def bk Map_get_map Let_def)
    also have "\<dots> = map (\<lambda>k'. (k', if k' = ?k then ?f ?k @ [b] else ?f k')) ?ks"
      using mem distinct_firstOccurrences by (rule Map_set_map_present)
    also have "\<dots> = map (\<lambda>k'. (k', filter (\<lambda>b. ?nk b = k') (bs @ [b]))) ?ks"
      by (rule map_cong) auto
    also have "\<dots> = bucketsByKey (bs @ [b])"
      using True by (simp add: bucketsByKey_def firstOccurrences_snoc)
    finally show ?thesis by simp
  next
    case False
    then have mem: "?k \<notin> set ?ks" by (simp add: set_firstOccurrences)
    have "?nk x \<noteq> ?k" if "x \<in> set bs" for x
    proof
      assume "?nk x = ?k"
      with that have "?k \<in> ?nk ` set bs" by (metis imageI)
      with False show False by simp
    qed
    then have empty: "?f ?k = []"
      by (simp add: filter_empty_conv)
    have "keyMap_add (bucketsByKey bs) b = Map_set ?k [b] (map (\<lambda>k. (k, ?f k)) ?ks)"
      using mem by (simp add: keyMap_add_def bk Map_get_map Let_def)
    also have "\<dots> = map (\<lambda>k. (k, ?f k)) ?ks @ [(?k, [b])]"
      using mem by (rule Map_set_map_absent)
    also have "map (\<lambda>k. (k, ?f k)) ?ks = map (\<lambda>k'. (k', filter (\<lambda>b. ?nk b = k') (bs @ [b]))) ?ks"
      using mem by (intro map_cong) auto
    also have "\<dots> @ [(?k, [b])] = bucketsByKey (bs @ [b])"
      using False empty by (simp add: bucketsByKey_def firstOccurrences_snoc)
    finally show ?thesis by simp
  qed
qed

lemma keyMap_bucketsByKey: "foldl keyMap_add [] bindings = bucketsByKey bindings"
proof (induction bindings rule: rev_induct)
  case Nil
  show ?case by (simp add: bucketsByKey_def firstOccurrences_def)
next
  case (snoc b bs)
  then show ?case by (simp add: bucketsByKey_snoc)
qed

lemma detectConflicts_refines:
  "detectConflicts userBindings extensionBindings =
   detectConflicts_spec userBindings extensionBindings"
proof -
  have co: "conflict_of =
        (\<lambda>grp. \<lparr>key_c = key_k (hd grp), bindings_c = grp,
                 involvesUserBinding = (\<exists>b\<in>set grp. source_k b = User)\<rparr>)"
    by (intro ext) (simp add: conflict_of_def list_ex_iff)
  have "(\<lambda>(key :: string, bindings). conflicts_of_bucket bindings) =
        (\<lambda>(key, bucket). if 2 \<le> length bucket
           then map (\<lambda>grp. \<lparr>key_c = key_k (hd grp), bindings_c = grp,
                            involvesUserBinding = (\<exists>b\<in>set grp. source_k b = User)\<rparr>)
                  (filter (\<lambda>grp. 2 \<le> length grp) (groupBySeed bucket)) else [])"
  proof (intro ext, clarify)
    fix key :: string and bucket
    have "(\<lambda>grp :: Keybinding list. 1 < length grp) = (\<lambda>grp. 2 \<le> length grp)"
      by (intro ext) auto
    then show "conflicts_of_bucket bucket =
        (if 2 \<le> length bucket
         then map (\<lambda>grp. \<lparr>key_c = key_k (hd grp), bindings_c = grp,
                          involvesUserBinding = (\<exists>b\<in>set grp. source_k b = User)\<rparr>)
                (filter (\<lambda>grp. 2 \<le> length grp) (groupBySeed bucket)) else [])"
      unfolding co [symmetric]
      by (auto simp: conflicts_of_bucket_def groupByContext_groupBySeed)
  qed
  then show ?thesis
    by (simp add: detectConflicts_def detectConflicts_spec_def keyMap_bucketsByKey Let_def)
qed

lemma groupBySeed_groups:
  "grp \<in> set (groupBySeed xs) \<Longrightarrow>
     grp \<noteq> [] \<and> set grp \<subseteq> set xs
     \<and> (\<forall>b\<in>set (tl grp). contextsOverlap (when_k (hd grp)) (when_k b))"
proof (induction xs arbitrary: grp rule: groupBySeed.induct)
  case 1
  then show ?case by simp
next
  case (2 seed rest)
  from "2.prems" consider
      (here) "grp = seed # filter (\<lambda>b. contextsOverlap (when_k seed) (when_k b)) rest"
    | (later) "grp \<in> set (groupBySeed (filter (\<lambda>b. \<not> contextsOverlap (when_k seed) (when_k b)) rest))"
    by auto
  then show ?case
  proof cases
    case here
    then show ?thesis by auto
  next
    case later
    from "2.IH" [OF later] show ?thesis by auto
  qed
qed

lemma bucketsByKey_bucket:
  "(k, bucket) \<in> set (bucketsByKey bindings) \<Longrightarrow>
     bucket = filter (\<lambda>b. normalizeKey (key_k b) = k) bindings"
  by (auto simp: bucketsByKey_def)

lemma detectConflicts_spec_groups:
  assumes "c \<in> set (detectConflicts_spec u e)"
  shows "2 \<le> length (bindings_c c)
     \<and> key_c c = key_k (hd (bindings_c c))
     \<and> involvesUserBinding c = (\<exists>b\<in>set (bindings_c c). source_k b = User)
     \<and> (\<forall>b\<in>set (bindings_c c). b \<in> set (u @ e)
           \<and> normalizeKey (key_k b) = normalizeKey (key_c c))
     \<and> (\<forall>b\<in>set (tl (bindings_c c)). contextsOverlap (when_k (hd (bindings_c c))) (when_k b))"
proof -
  from assms obtain k bucket grp where
      kb: "(k, bucket) \<in> set (bucketsByKey (u @ e))"
    and g: "grp \<in> set (groupBySeed bucket)" and l: "2 \<le> length grp"
    and c: "c = \<lparr>key_c = key_k (hd grp), bindings_c = grp,
                 involvesUserBinding = (\<exists>b\<in>set grp. source_k b = User)\<rparr>"
    by (auto simp: detectConflicts_spec_def split: if_splits)
  from bucketsByKey_bucket [OF kb]
  have b: "bucket = filter (\<lambda>b. normalizeKey (key_k b) = k) (u @ e)" .
  from groupBySeed_groups [OF g]
  have ne: "grp \<noteq> []" and sub: "set grp \<subseteq> set bucket"
    and ov: "\<forall>b\<in>set (tl grp). contextsOverlap (when_k (hd grp)) (when_k b)"
    by blast+
  from ne have hd: "hd grp \<in> set grp" by simp
  from sub b have mem: "\<forall>x\<in>set grp. x \<in> set (u @ e) \<and> normalizeKey (key_k x) = k"
    by auto
  with hd have "normalizeKey (key_k (hd grp)) = k" by blast
  with mem have "\<forall>x\<in>set grp. x \<in> set (u @ e)
       \<and> normalizeKey (key_k x) = normalizeKey (key_k (hd grp))"
    by simp
  with l ov c show ?thesis
    by simp
qed

text \<open>
  Claim C7. \<^verbatim>\<open>detectConflicts\<close> computes what the construction of the specification
  computes, on all inputs: buckets by normalized key over the user bindings followed by
  the extension bindings, groups by seed and absorption in each bucket of two or more,
  groups of two or more reported. Every group it reports has two bindings or more, all
  from the input and all of one normalized key, each one after the first overlapping
  the first in context; its key is the key of its first binding as written, and it
  involves a user binding exactly when one of its bindings has the source \<^verbatim>\<open>user\<close>.

  The normalized key is the key in lower case, cut at \<^verbatim>\<open>+\<close>, the parts trimmed, sorted and
  joined again. The examples: the two bindings of the claim, without contexts (one group,
  a user binding involved) and with \<^verbatim>\<open>editorTextFocus\<close> and \<^verbatim>\<open>!editorTextFocus\<close> (no group);
  keys that differ in case, order and spacing only (one group, under the key of the user
  binding as written); keys that differ (no group); two extension bindings (one group, no
  user binding involved); contexts of several terms that contradict each other in one
  term (no group) and that do not (one group); an equality test against \<^verbatim>\<open>true\<close> and the
  negated flag (no group), an equality test against \<^verbatim>\<open>false\<close> and the flag (no group),
  equality tests against two other values (one group, since both count as false); three bindings of one key, where the seed decides: with the
  seed \<^verbatim>\<open>editorTextFocus\<close> the binding \<^verbatim>\<open>!editorTextFocus\<close> stays out and is not reported
  with the third, which overlaps it, and with the seed without context both are absorbed
  though they contradict each other; two keys, reported in the order of their first
  binding.
\<close>

theorem detectConflicts_construction:
  "detectConflicts userBindings extensionBindings =
     detectConflicts_spec userBindings extensionBindings
   \<and> (\<forall>c\<in>set (detectConflicts userBindings extensionBindings).
        2 \<le> length (bindings_c c)
        \<and> key_c c = key_k (hd (bindings_c c))
        \<and> involvesUserBinding c = (\<exists>b\<in>set (bindings_c c). source_k b = User)
        \<and> (\<forall>b\<in>set (bindings_c c). b \<in> set (userBindings @ extensionBindings)
              \<and> normalizeKey (key_k b) = normalizeKey (key_c c))
        \<and> (\<forall>b\<in>set (tl (bindings_c c)).
              contextsOverlap (when_k (hd (bindings_c c))) (when_k b)))
   \<and> normalizeKey ''Ctrl+Shift+K'' = ''ctrl+k+shift''
   \<and> normalizeKey ''shift + ctrl+k'' = ''ctrl+k+shift''
   \<and> detectConflicts [kbU] [kbE] =
       [\<lparr>key_c = ''ctrl+k'', bindings_c = [kbU, kbE], involvesUserBinding = True\<rparr>]
   \<and> detectConflicts [kbU\<lparr>when_k := Some ''editorTextFocus''\<rparr>]
                       [kbE\<lparr>when_k := Some ''!editorTextFocus''\<rparr>] = []
   \<and> detectConflicts [kbU\<lparr>key_k := ''Ctrl+Shift+K''\<rparr>] [kbE\<lparr>key_k := ''shift + ctrl+k''\<rparr>] =
       [\<lparr>key_c = ''Ctrl+Shift+K'',
         bindings_c = [kbU\<lparr>key_k := ''Ctrl+Shift+K''\<rparr>, kbE\<lparr>key_k := ''shift + ctrl+k''\<rparr>],
         involvesUserBinding = True\<rparr>]
   \<and> detectConflicts [kbU] [kbE\<lparr>key_k := ''ctrl+j''\<rparr>] = []
   \<and> detectConflicts [] [kbE, kbE2] =
       [\<lparr>key_c = ''ctrl+k'', bindings_c = [kbE, kbE2], involvesUserBinding = False\<rparr>]
   \<and> detectConflicts [kbU\<lparr>when_k := Some ''editorTextFocus && !inDebugMode''\<rparr>]
                       [kbE\<lparr>when_k := Some ''inDebugMode&&editorTextFocus''\<rparr>] = []
   \<and> detectConflicts [kbU\<lparr>when_k := Some ''editorTextFocus && !inDebugMode''\<rparr>]
                       [kbE\<lparr>when_k := Some ''editorTextFocus && editorLangId == python''\<rparr>] =
       [\<lparr>key_c = ''ctrl+k'',
         bindings_c = [kbU\<lparr>when_k := Some ''editorTextFocus && !inDebugMode''\<rparr>,
                       kbE\<lparr>when_k := Some ''editorTextFocus && editorLangId == python''\<rparr>],
         involvesUserBinding = True\<rparr>]
   \<and> detectConflicts [kbU\<lparr>when_k := Some ''isLinux == true''\<rparr>]
                       [kbE\<lparr>when_k := Some ''!isLinux''\<rparr>] = []
   \<and> detectConflicts [kbU\<lparr>when_k := Some ''isLinux == false''\<rparr>]
                       [kbE\<lparr>when_k := Some ''isLinux''\<rparr>] = []
   \<and> detectConflicts [kbU\<lparr>when_k := Some ''editorLangId == python''\<rparr>]
                       [kbE\<lparr>when_k := Some ''editorLangId == rust''\<rparr>] =
       [\<lparr>key_c = ''ctrl+k'',
         bindings_c = [kbU\<lparr>when_k := Some ''editorLangId == python''\<rparr>,
                       kbE\<lparr>when_k := Some ''editorLangId == rust''\<rparr>],
         involvesUserBinding = True\<rparr>]
   \<and> detectConflicts [kbU\<lparr>when_k := Some ''editorTextFocus''\<rparr>]
                       [kbE\<lparr>when_k := Some ''!editorTextFocus''\<rparr>, kbE2] =
       [\<lparr>key_c = ''ctrl+k'',
         bindings_c = [kbU\<lparr>when_k := Some ''editorTextFocus''\<rparr>, kbE2],
         involvesUserBinding = True\<rparr>]
   \<and> detectConflicts [] [kbE2, kbU\<lparr>when_k := Some ''editorTextFocus''\<rparr>,
                          kbE\<lparr>when_k := Some ''!editorTextFocus''\<rparr>] =
       [\<lparr>key_c = ''ctrl+k'',
         bindings_c = [kbE2, kbU\<lparr>when_k := Some ''editorTextFocus''\<rparr>,
                       kbE\<lparr>when_k := Some ''!editorTextFocus''\<rparr>],
         involvesUserBinding = True\<rparr>]
   \<and> detectConflicts [kbU\<lparr>key_k := ''ctrl+j''\<rparr>, kbU] [kbE, kbE2\<lparr>key_k := ''Ctrl+J''\<rparr>] =
       [\<lparr>key_c = ''ctrl+j'',
         bindings_c = [kbU\<lparr>key_k := ''ctrl+j''\<rparr>, kbE2\<lparr>key_k := ''Ctrl+J''\<rparr>],
         involvesUserBinding = True\<rparr>,
        \<lparr>key_c = ''ctrl+k'', bindings_c = [kbU, kbE], involvesUserBinding = True\<rparr>]"
proof (intro conjI ballI)
  show "detectConflicts userBindings extensionBindings =
        detectConflicts_spec userBindings extensionBindings"
    by (rule detectConflicts_refines)
next
  fix c assume "c \<in> set (detectConflicts userBindings extensionBindings)"
  then have c: "c \<in> set (detectConflicts_spec userBindings extensionBindings)"
    by (simp only: detectConflicts_refines)
  note g = detectConflicts_spec_groups [OF c]
  from g show "2 \<le> length (bindings_c c)" by blast
  from g show "key_c c = key_k (hd (bindings_c c))" by blast
  from g show "involvesUserBinding c = (\<exists>b\<in>set (bindings_c c). source_k b = User)" by blast
  {
    fix b assume "b \<in> set (bindings_c c)"
    with g show "b \<in> set (userBindings @ extensionBindings)" by blast
  next
    fix b assume "b \<in> set (bindings_c c)"
    with g show "normalizeKey (key_k b) = normalizeKey (key_c c)" by blast
  next
    fix b assume "b \<in> set (tl (bindings_c c))"
    with g show "contextsOverlap (when_k (hd (bindings_c c))) (when_k b)" by blast
  }
next
  show "normalizeKey ''Ctrl+Shift+K'' = ''ctrl+k+shift''" by code_simp
  show "normalizeKey ''shift + ctrl+k'' = ''ctrl+k+shift''" by code_simp
  show "detectConflicts [kbU] [kbE] =
       [\<lparr>key_c = ''ctrl+k'', bindings_c = [kbU, kbE], involvesUserBinding = True\<rparr>]"
    by code_simp
  show "detectConflicts [kbU\<lparr>when_k := Some ''editorTextFocus''\<rparr>]
                        [kbE\<lparr>when_k := Some ''!editorTextFocus''\<rparr>] = []"
    by code_simp
  show "detectConflicts [kbU\<lparr>key_k := ''Ctrl+Shift+K''\<rparr>] [kbE\<lparr>key_k := ''shift + ctrl+k''\<rparr>] =
       [\<lparr>key_c = ''Ctrl+Shift+K'',
         bindings_c = [kbU\<lparr>key_k := ''Ctrl+Shift+K''\<rparr>, kbE\<lparr>key_k := ''shift + ctrl+k''\<rparr>],
         involvesUserBinding = True\<rparr>]"
    by code_simp
  show "detectConflicts [kbU] [kbE\<lparr>key_k := ''ctrl+j''\<rparr>] = []"
    by code_simp
  show "detectConflicts [] [kbE, kbE2] =
       [\<lparr>key_c = ''ctrl+k'', bindings_c = [kbE, kbE2], involvesUserBinding = False\<rparr>]"
    by code_simp
  show "detectConflicts [kbU\<lparr>when_k := Some ''editorTextFocus && !inDebugMode''\<rparr>]
                        [kbE\<lparr>when_k := Some ''inDebugMode&&editorTextFocus''\<rparr>] = []"
    by code_simp
  show "detectConflicts [kbU\<lparr>when_k := Some ''editorTextFocus && !inDebugMode''\<rparr>]
                        [kbE\<lparr>when_k := Some ''editorTextFocus && editorLangId == python''\<rparr>] =
       [\<lparr>key_c = ''ctrl+k'',
         bindings_c = [kbU\<lparr>when_k := Some ''editorTextFocus && !inDebugMode''\<rparr>,
                       kbE\<lparr>when_k := Some ''editorTextFocus && editorLangId == python''\<rparr>],
         involvesUserBinding = True\<rparr>]"
    by code_simp
  show "detectConflicts [kbU\<lparr>when_k := Some ''isLinux == true''\<rparr>]
                        [kbE\<lparr>when_k := Some ''!isLinux''\<rparr>] = []"
    by code_simp
  show "detectConflicts [kbU\<lparr>when_k := Some ''isLinux == false''\<rparr>]
                        [kbE\<lparr>when_k := Some ''isLinux''\<rparr>] = []"
    by code_simp
  show "detectConflicts [kbU\<lparr>when_k := Some ''editorLangId == python''\<rparr>]
                        [kbE\<lparr>when_k := Some ''editorLangId == rust''\<rparr>] =
       [\<lparr>key_c = ''ctrl+k'',
         bindings_c = [kbU\<lparr>when_k := Some ''editorLangId == python''\<rparr>,
                       kbE\<lparr>when_k := Some ''editorLangId == rust''\<rparr>],
         involvesUserBinding = True\<rparr>]"
    by code_simp
  show "detectConflicts [kbU\<lparr>when_k := Some ''editorTextFocus''\<rparr>]
                        [kbE\<lparr>when_k := Some ''!editorTextFocus''\<rparr>, kbE2] =
       [\<lparr>key_c = ''ctrl+k'',
         bindings_c = [kbU\<lparr>when_k := Some ''editorTextFocus''\<rparr>, kbE2],
         involvesUserBinding = True\<rparr>]"
    by code_simp
  show "detectConflicts [] [kbE2, kbU\<lparr>when_k := Some ''editorTextFocus''\<rparr>,
                          kbE\<lparr>when_k := Some ''!editorTextFocus''\<rparr>] =
       [\<lparr>key_c = ''ctrl+k'',
         bindings_c = [kbE2, kbU\<lparr>when_k := Some ''editorTextFocus''\<rparr>,
                       kbE\<lparr>when_k := Some ''!editorTextFocus''\<rparr>],
         involvesUserBinding = True\<rparr>]"
    by code_simp
  show "detectConflicts [kbU\<lparr>key_k := ''ctrl+j''\<rparr>, kbU] [kbE, kbE2\<lparr>key_k := ''Ctrl+J''\<rparr>] =
       [\<lparr>key_c = ''ctrl+j'',
         bindings_c = [kbU\<lparr>key_k := ''ctrl+j''\<rparr>, kbE2\<lparr>key_k := ''Ctrl+J''\<rparr>],
         involvesUserBinding = True\<rparr>,
        \<lparr>key_c = ''ctrl+k'', bindings_c = [kbU, kbE], involvesUserBinding = True\<rparr>]"
    by code_simp
qed

text \<open>The statement at the two bindings of the claim: the group reported is the one the
  construction gives, and it is among the groups the general part speaks of.\<close>

theorem detectConflicts_construction_witness:
  "detectConflicts_spec [kbU] [kbE] =
       [\<lparr>key_c = ''ctrl+k'', bindings_c = [kbU, kbE], involvesUserBinding = True\<rparr>]
   \<and> \<lparr>key_c = ''ctrl+k'', bindings_c = [kbU, kbE], involvesUserBinding = True\<rparr>
        \<in> set (detectConflicts [kbU] [kbE])
   \<and> normalizeKey (key_k kbE) = normalizeKey ''ctrl+k''
   \<and> contextsOverlap (when_k kbU) (when_k kbE)"
proof -
  let ?c = "\<lparr>key_c = ''ctrl+k'', bindings_c = [kbU, kbE], involvesUserBinding = True\<rparr>"
  note t = detectConflicts_construction [of "[kbU]" "[kbE]"]
  from t have a: "detectConflicts [kbU] [kbE] = detectConflicts_spec [kbU] [kbE]"
    and b: "detectConflicts [kbU] [kbE] = [?c]"
    by blast+
  from b have m: "?c \<in> set (detectConflicts [kbU] [kbE])"
    by simp
  from t have "\<forall>c\<in>set (detectConflicts [kbU] [kbE]).
        (\<forall>b\<in>set (bindings_c c). normalizeKey (key_k b) = normalizeKey (key_c c))
        \<and> (\<forall>b\<in>set (tl (bindings_c c)).
              contextsOverlap (when_k (hd (bindings_c c))) (when_k b))"
    by blast
  with m have "(\<forall>b\<in>set (bindings_c ?c). normalizeKey (key_k b) = normalizeKey (key_c ?c))
        \<and> (\<forall>b\<in>set (tl (bindings_c ?c)).
              contextsOverlap (when_k (hd (bindings_c ?c))) (when_k b))"
    by blast
  then have n: "normalizeKey (key_k kbE) = normalizeKey ''ctrl+k''"
    and o: "contextsOverlap (when_k kbU) (when_k kbE)"
    by simp_all
  from a b m n o show ?thesis by simp
qed

end
